theory Spec2Isabelle
  imports Main
begin

section \<open>Text, errors and the outside world\<close>

text \<open>
  A Python \<open>str\<close> is a sequence of Unicode code points, so a character is a natural number
  and a text a list of them; \<open>ustr\<close> turns an ASCII literal into such a text.
\<close>

type_synonym uchar = nat
type_synonym ustring = "uchar list"

definition ustr :: "string \<Rightarrow> ustring" where
  "ustr s = map of_char s"

text \<open>The exceptions that the dataset class and the batch function can let escape.\<close>

datatype py_error = IndexError | KeyError | TypeError | ValueError | RuntimeError
  | OSError | UnicodeDecodeError

text \<open>
  What the notebook takes from outside: the file names \<open>glob.glob\<close> yields for a pattern,
  in its order; the result of \<open>open(filename, encoding='utf-8').read()\<close>, which is the
  decoded content (its line ends already turned into the newline character by the text
  mode) or an exception; and the two functions of \<open>unicodedata\<close>, \<open>normalize('NFD', s)\<close>
  and \<open>category(c)\<close>.
\<close>

record extern =
  glob_glob :: "ustring \<Rightarrow> ustring list"
  open_read :: "ustring \<Rightarrow> py_error + ustring"
  normalize_NFD :: "ustring \<Rightarrow> ustring"
  unicodedata_category :: "uchar \<Rightarrow> string"

subsection \<open>\<open>str.strip\<close>, \<open>str.split\<close>, \<open>os.path\<close>\<close>

text \<open>\<open>str.isspace\<close> on one character: the code points Python counts as whitespace.\<close>

definition isspace :: "uchar \<Rightarrow> bool" where
  "isspace c \<longleftrightarrow>
     (9 \<le> c \<and> c \<le> 13) \<or> (28 \<le> c \<and> c \<le> 32) \<or> c = 133 \<or> c = 160 \<or> c = 5760
     \<or> (8192 \<le> c \<and> c \<le> 8202) \<or> c = 8232 \<or> c = 8233 \<or> c = 8239 \<or> c = 8287
     \<or> c = 12288"

text \<open>\<open>s.strip()\<close>: whitespace is removed at both ends of the whole text, nowhere else.\<close>

definition strip :: "ustring \<Rightarrow> ustring" where
  "strip s = rev (dropWhile isspace (rev (dropWhile isspace s)))"

text \<open>\<open>s.split(sep)\<close> for a one-character separator: never an empty list.\<close>

fun split :: "uchar \<Rightarrow> ustring \<Rightarrow> ustring list" where
  "split sep [] = [[]]"
| "split sep (c # cs) =
     (if c = sep then [] # split sep cs
      else (case split sep cs of [] \<Rightarrow> [[c]] | l # ls \<Rightarrow> (c # l) # ls))"

text \<open>\<open>sep.join(parts)\<close>, the inverse of \<open>split\<close>.\<close>

fun join :: "uchar \<Rightarrow> ustring list \<Rightarrow> ustring" where
  "join sep [] = []"
| "join sep [l] = l"
| "join sep (l # ls) = l @ sep # join sep ls"

text \<open>\<open>s.rfind(c)\<close>: the last position of \<open>c\<close>, or \<open>-1\<close>.\<close>

definition rfind :: "uchar \<Rightarrow> ustring \<Rightarrow> int" where
  "rfind c s =
     (if c \<in> set s then int (length s) - 1 - int (length (takeWhile (\<lambda>x. x \<noteq> c) (rev s)))
      else - 1)"

definition SLASH :: uchar where "SLASH = 47"
definition DOT :: uchar where "DOT = 46"
definition NEWLINE :: uchar where "NEWLINE = 10"

text \<open>\<open>os.path.basename\<close> (POSIX): what follows the last slash.\<close>

definition basename :: "ustring \<Rightarrow> ustring" where
  "basename p = drop (nat (rfind SLASH p + 1)) p"

text \<open>
  \<open>os.path.splitext\<close> (POSIX): the text is cut at the last dot when that dot comes after
  the last slash and some character between them is not a dot (leading dots of the file
  name do not start an extension).
\<close>

definition splitext :: "ustring \<Rightarrow> ustring \<times> ustring" where
  "splitext p =
     (let sepIndex = rfind SLASH p; dotIndex = rfind DOT p in
      if dotIndex > sepIndex \<and>
         list_ex (\<lambda>k. p ! k \<noteq> DOT) [nat (sepIndex + 1) ..< nat dotIndex]
      then (take (nat dotIndex) p, drop (nat dotIndex) p)
      else (p, []))"

section \<open>The corpus loader\<close>

text \<open>
  \<open>unicode_to_ascii\<close>: canonical decomposition, then every character of category
  \<open>Mn\<close> is dropped.
\<close>

definition unicode_to_ascii :: "extern \<Rightarrow> ustring \<Rightarrow> ustring" where
  "unicode_to_ascii ext s =
     filter (\<lambda>c. unicodedata_category ext c \<noteq> ''Mn'') (normalize_NFD ext s)"

text \<open>\<open>os.path.splitext(os.path.basename(filename))[0]\<close>, the category of a file.\<close>

definition category_of :: "ustring \<Rightarrow> ustring" where
  "category_of filename = fst (splitext (basename filename))"

type_synonym corpus =
  "(ustring \<rightharpoonup> nat) \<times> (nat \<rightharpoonup> ustring) \<times> (ustring \<times> ustring) list"

text \<open>The inner loop of \<open>load_data\<close>: one item per line of the stripped content.\<close>

definition file_items :: "extern \<Rightarrow> ustring \<Rightarrow> ustring \<Rightarrow> (ustring \<times> ustring) list" where
  "file_items ext category content =
     map (\<lambda>line. (unicode_to_ascii ext line, category)) (split NEWLINE (strip content))"

text \<open>
  The outer loop of \<open>load_data\<close> over \<open>enumerate(glob.glob(path))\<close>, with the three
  accumulators passed along. The category is registered before the file is opened; an
  exception of \<open>open\<close> or \<open>read\<close> ends the loop.
\<close>

fun load_files :: "extern \<Rightarrow> (nat \<times> ustring) list \<Rightarrow> corpus \<Rightarrow> py_error + corpus" where
  "load_files ext [] acc = Inr acc"
| "load_files ext ((idx, filename) # rest) (cat2idx, idx2cat, data) =
     (let category = category_of filename;
          cat2idx' = cat2idx(category \<mapsto> idx);
          idx2cat' = idx2cat(idx \<mapsto> category)
      in case open_read ext filename of
           Inl e \<Rightarrow> Inl e
         | Inr content \<Rightarrow>
             load_files ext rest (cat2idx', idx2cat', data @ file_items ext category content))"

definition load_data :: "extern \<Rightarrow> ustring \<Rightarrow> py_error + corpus" where
  "load_data ext path = load_files ext (enumerate 0 (glob_glob ext path)) (Map.empty, Map.empty, [])"

section \<open>Tensors\<close>

text \<open>
  A tensor is its shape and its entries in row-major order. The entries the notebook
  writes are the \<open>0.0\<close> and \<open>1.0\<close> of one-hot rows, the padding value \<open>0\<close> and the
  integer category indices, so they are integers here.
\<close>

record tensor =
  shape :: "nat list"
  elems :: "int list"

definition torch_zeros :: "nat list \<Rightarrow> tensor" where
  "torch_zeros sh = \<lparr>shape = sh, elems = replicate (prod_list sh) 0\<rparr>"

text \<open>\<open>torch.tensor([v])\<close>.\<close>

definition torch_tensor1 :: "int \<Rightarrow> tensor" where
  "torch_tensor1 v = \<lparr>shape = [1], elems = [v]\<rparr>"

text \<open>
  \<open>t[i][j][k] = v\<close> on a tensor of three dimensions, for indices that are not negative:
  an index beyond its dimension raises \<open>IndexError\<close>.
\<close>

definition setitem3 :: "tensor \<Rightarrow> nat \<Rightarrow> nat \<Rightarrow> nat \<Rightarrow> int \<Rightarrow> py_error + tensor" where
  "setitem3 t i j k v =
     (case shape t of
        [d0, d1, d2] \<Rightarrow>
          if i < d0 \<and> j < d1 \<and> k < d2
          then Inr (t\<lparr>elems := (elems t)[(i * d1 + j) * d2 + k := v]\<rparr>)
          else Inl IndexError
      | _ \<Rightarrow> Inl IndexError)"

text \<open>The position of the first greatest entry of a row, found by one scan.\<close>

fun argmax_scan :: "nat \<Rightarrow> int \<Rightarrow> nat \<Rightarrow> int list \<Rightarrow> nat" where
  "argmax_scan best bv i [] = best"
| "argmax_scan best bv i (v # vs) =
     (if bv < v then argmax_scan i v (Suc i) vs else argmax_scan best bv (Suc i) vs)"

fun argmax_list :: "int list \<Rightarrow> nat" where
  "argmax_list [] = 0"
| "argmax_list (v # vs) = argmax_scan 0 v 1 vs"

definition rows_of :: "nat \<Rightarrow> 'a list \<Rightarrow> 'a list list" where
  "rows_of n xs = map (\<lambda>j. take n (drop (j * n) xs)) [0 ..< length xs div n]"

text \<open>
  \<open>torch.argmax(t, dim=-1)\<close>: the last dimension is reduced; it must not be empty. On a
  tensor without dimensions the result is the index \<open>0\<close>.
\<close>

definition argmax_last :: "tensor \<Rightarrow> py_error + tensor" where
  "argmax_last t =
     (if shape t = [] then Inr \<lparr>shape = [], elems = [0]\<rparr>
      else let n = last (shape t) in
        if n = 0 then Inl IndexError
        else Inr \<lparr>shape = butlast (shape t),
                  elems = map (\<lambda>r. int (argmax_list r)) (rows_of n (elems t))\<rparr>)"

text \<open>
  \<open>for i in t\<close>: the sub-tensors along the first dimension; a tensor without dimensions
  cannot be iterated.
\<close>

definition iter_tensor :: "tensor \<Rightarrow> py_error + tensor list" where
  "iter_tensor t =
     (case shape t of
        [] \<Rightarrow> Inl TypeError
      | d # sh \<Rightarrow>
          Inr (map (\<lambda>j. \<lparr>shape = sh,
                         elems = take (prod_list sh) (drop (j * prod_list sh) (elems t))\<rparr>)
                   [0 ..< d]))"

text \<open>
  An integer tensor used as an index, as the results of \<open>argmax\<close> are: it must hold
  exactly one entry.
\<close>

definition tensor_index :: "tensor \<Rightarrow> py_error + int" where
  "tensor_index t = (case elems t of [v] \<Rightarrow> Inr v | _ \<Rightarrow> Inl TypeError)"

text \<open>\<open>xs[i]\<close> on a Python sequence: a negative index counts from the end.\<close>

definition py_getitem :: "'a list \<Rightarrow> int \<Rightarrow> py_error + 'a" where
  "py_getitem xs i =
     (if 0 \<le> i \<and> i < int (length xs) then Inr (xs ! nat i)
      else if - int (length xs) \<le> i \<and> i < 0 then Inr (xs ! nat (i + int (length xs)))
      else Inl IndexError)"

text \<open>
  \<open>pad_sequence(sequences, batch_first=True, padding_value=pad)\<close> for sequences that
  agree on every dimension but the first, as the tensors of one dataset do: each is
  filled at its end up to the longest. (For sequences that disagree there the library
  copies with broadcasting where it can; that case, like a sequence without dimensions,
  is given as an error and is outside every statement below.)
\<close>

definition pad_sequence :: "tensor list \<Rightarrow> int \<Rightarrow> py_error + tensor" where
  "pad_sequence sequences pad =
     (if sequences = [] then Inl RuntimeError
      else if list_ex (\<lambda>t. shape t = []) sequences then Inl IndexError
      else let trailing = tl (shape (hd sequences));
               max_len = fold max (map (\<lambda>t. hd (shape t)) sequences) 0
           in if list_ex (\<lambda>t. tl (shape t) \<noteq> trailing) sequences then Inl RuntimeError
              else Inr \<lparr>shape = length sequences # max_len # trailing,
                        elems = concat (map (\<lambda>t. elems t @
                                  replicate ((max_len - hd (shape t)) * prod_list trailing) pad)
                                  sequences)\<rparr>)"

text \<open>\<open>t.squeeze()\<close> without an argument: every dimension of extent 1 goes.\<close>

definition squeeze :: "tensor \<Rightarrow> tensor" where
  "squeeze t = t\<lparr>shape := filter (\<lambda>d. d \<noteq> 1) (shape t)\<rparr>"

text \<open>
  \<open>torch.cat(tensors)\<close> along the first dimension: empty one-dimensional tensors are
  passed over, the others must agree on the remaining dimensions.
\<close>

definition torch_cat :: "tensor list \<Rightarrow> py_error + tensor" where
  "torch_cat tensors =
     (let ts = filter (\<lambda>t. shape t \<noteq> [0]) tensors in
      if tensors = [] then Inl RuntimeError
      else if ts = [] then Inr \<lparr>shape = [0], elems = []\<rparr>
      else if list_ex (\<lambda>t. shape t = [] \<or> tl (shape t) \<noteq> tl (shape (hd ts))) ts
      then Inl RuntimeError
      else Inr \<lparr>shape = sum_list (map (\<lambda>t. hd (shape t)) ts) # tl (shape (hd ts)),
                elems = concat (map elems ts)\<rparr>)"

text \<open>\<open>t[i]\<close> and \<open>t[:n]\<close> on a tensor, for an index and a bound that are not negative.\<close>

definition select :: "tensor \<Rightarrow> nat \<Rightarrow> py_error + tensor" where
  "select t i =
     (case shape t of
        [] \<Rightarrow> Inl IndexError
      | d # sh \<Rightarrow>
          if i < d
          then Inr \<lparr>shape = sh, elems = take (prod_list sh) (drop (i * prod_list sh) (elems t))\<rparr>
          else Inl IndexError)"

definition narrow :: "tensor \<Rightarrow> nat \<Rightarrow> py_error + tensor" where
  "narrow t n =
     (case shape t of
        [] \<Rightarrow> Inl IndexError
      | d # sh \<Rightarrow> Inr \<lparr>shape = min n d # sh, elems = take (min n d * prod_list sh) (elems t)\<rparr>)"

section \<open>The dataset class\<close>

record NameDataset =
  all_letters :: ustring
  n_letters :: nat
  NULL_IDX :: nat
  cat2idx :: "ustring \<rightharpoonup> nat"
  idx2cat :: "nat \<rightharpoonup> ustring"
  data :: "(ustring \<times> ustring) list"
  letter2idx :: "uchar \<rightharpoonup> nat"

definition ascii_letters :: ustring where
  "ascii_letters = ustr ''abcdefghijklmnopqrstuvwxyzABCDEFGHIJKLMNOPQRSTUVWXYZ''"

text \<open>\<open>"-" + string.ascii_letters + " .,;'"\<close>; the apostrophe is code point 39.\<close>

definition ALL_LETTERS :: ustring where
  "ALL_LETTERS = ustr ''-'' @ ascii_letters @ ustr '' .,;'' @ [39]"

text \<open>\<open>{letter: idx for idx, letter in enumerate(letters)}\<close>: a later entry overrides.\<close>

definition dict_of_enumerate :: "ustring \<Rightarrow> (uchar \<rightharpoonup> nat)" where
  "dict_of_enumerate letters =
     foldl (\<lambda>m (idx, letter). m(letter \<mapsto> idx)) Map.empty (enumerate 0 letters)"

text \<open>
  \<open>__init__\<close>: the object that the assignments build around what \<open>load_data\<close>
  returned, and the constructor, which lets an exception of \<open>load_data\<close> through.
\<close>

definition dataset_of :: "corpus \<Rightarrow> NameDataset" where
  "dataset_of loaded =
     \<lparr>all_letters = ALL_LETTERS, n_letters = length ALL_LETTERS, NULL_IDX = 0,
      cat2idx = fst loaded, idx2cat = fst (snd loaded), data = snd (snd loaded),
      letter2idx = dict_of_enumerate ALL_LETTERS\<rparr>"

definition NameDataset_init :: "extern \<Rightarrow> ustring \<Rightarrow> py_error + NameDataset" where
  "NameDataset_init ext data_path =
     (case load_data ext data_path of
        Inl e \<Rightarrow> Inl e
      | Inr loaded \<Rightarrow> Inr (dataset_of loaded))"

text \<open>\<open>self.letter2idx.get(letter, self.NULL_IDX)\<close>.\<close>

definition letter_get :: "NameDataset \<Rightarrow> uchar \<Rightarrow> nat" where
  "letter_get self letter =
     (case letter2idx self letter of None \<Rightarrow> NULL_IDX self | Some idx \<Rightarrow> idx)"

text \<open>The loop of \<open>name_to_tensor\<close> over \<open>enumerate(name)\<close>.\<close>

fun name_loop :: "NameDataset \<Rightarrow> (nat \<times> uchar) list \<Rightarrow> tensor \<Rightarrow> py_error + tensor" where
  "name_loop self [] t = Inr t"
| "name_loop self ((li, letter) # rest) t =
     (case setitem3 t li 0 (letter_get self letter) 1 of
        Inl e \<Rightarrow> Inl e
      | Inr t' \<Rightarrow> name_loop self rest t')"

definition name_to_tensor :: "NameDataset \<Rightarrow> ustring \<Rightarrow> py_error + tensor" where
  "name_to_tensor self name =
     name_loop self (enumerate 0 name) (torch_zeros [length name, 1, n_letters self])"

text \<open>
  \<open>''.join(self.all_letters[i] for i in idx)\<close>: the generator is consumed from the
  left, and the first exception ends it.
\<close>

fun join_letters :: "ustring \<Rightarrow> tensor list \<Rightarrow> py_error + ustring" where
  "join_letters letters [] = Inr []"
| "join_letters letters (i # rest) =
     (case tensor_index i of
        Inl e \<Rightarrow> Inl e
      | Inr v \<Rightarrow>
          (case py_getitem letters v of
             Inl e \<Rightarrow> Inl e
           | Inr c \<Rightarrow>
               (case join_letters letters rest of
                  Inl e \<Rightarrow> Inl e
                | Inr cs \<Rightarrow> Inr (c # cs))))"

definition tensor_to_name :: "NameDataset \<Rightarrow> tensor \<Rightarrow> py_error + ustring" where
  "tensor_to_name self t =
     (case argmax_last t of
        Inl e \<Rightarrow> Inl e
      | Inr idx \<Rightarrow>
          (case iter_tensor idx of
             Inl e \<Rightarrow> Inl e
           | Inr rows \<Rightarrow> join_letters (all_letters self) rows))"

definition len :: "NameDataset \<Rightarrow> nat" where
  "len self = length (data self)"

definition getitem :: "NameDataset \<Rightarrow> int \<Rightarrow> py_error + tensor \<times> tensor" where
  "getitem self idx =
     (case py_getitem (data self) idx of
        Inl e \<Rightarrow> Inl e
      | Inr (name, category) \<Rightarrow>
          (case name_to_tensor self name of
             Inl e \<Rightarrow> Inl e
           | Inr name_t \<Rightarrow>
               (case cat2idx self category of
                  None \<Rightarrow> Inl KeyError
                | Some c \<Rightarrow> Inr (name_t, torch_tensor1 (int c)))))"

section \<open>The batch function\<close>

text \<open>
  \<open>collate_fn\<close>, with the global \<open>dataset\<close> it reads as its first argument. Unpacking
  \<open>zip(*batch)\<close> of an empty batch into two names raises \<open>ValueError\<close>.
\<close>

definition collate_fn :: "NameDataset \<Rightarrow> (tensor \<times> tensor) list \<Rightarrow> py_error + tensor \<times> tensor" where
  "collate_fn dataset batch =
     (if batch = [] then Inl ValueError
      else let names = map fst batch; categories = map snd batch in
        case pad_sequence names (int (NULL_IDX dataset)) of
          Inl e \<Rightarrow> Inl e
        | Inr padded \<Rightarrow>
            (case torch_cat categories of
               Inl e \<Rightarrow> Inl e
             | Inr cats \<Rightarrow> Inr (squeeze padded, cats)))"

section \<open>Batches as the data loader builds them\<close>

text \<open>
  The \<open>DataLoader\<close> hands \<open>collate_fn\<close> the list \<open>[dataset[i] for i in indices]\<close>.
\<close>

fun fetch :: "NameDataset \<Rightarrow> int list \<Rightarrow> py_error + (tensor \<times> tensor) list" where
  "fetch dataset [] = Inr []"
| "fetch dataset (i # rest) =
     (case getitem dataset i of
        Inl e \<Rightarrow> Inl e
      | Inr item \<Rightarrow>
          (case fetch dataset rest of
             Inl e \<Rightarrow> Inl e
           | Inr items \<Rightarrow> Inr (item # items)))"

definition load_batch :: "NameDataset \<Rightarrow> int list \<Rightarrow> py_error + tensor \<times> tensor" where
  "load_batch dataset indices =
     (case fetch dataset indices of
        Inl e \<Rightarrow> Inl e
      | Inr batch \<Rightarrow> collate_fn dataset batch)"

text \<open>
  \<open>dataset.tensor_to_name(names[i][:n])\<close> for the first component \<open>names\<close> of a batch:
  the text read back from the first \<open>n\<close> positions of the \<open>i\<close>-th sequence.
\<close>

definition decode_item :: "NameDataset \<Rightarrow> tensor \<Rightarrow> nat \<Rightarrow> nat \<Rightarrow> py_error + ustring" where
  "decode_item dataset names i n =
     (case select names i of
        Inl e \<Rightarrow> Inl e
      | Inr row \<Rightarrow>
          (case narrow row n of
             Inl e \<Rightarrow> Inl e
           | Inr part \<Rightarrow> tensor_to_name dataset part))"

definition batch_decode :: "NameDataset \<Rightarrow> int list \<Rightarrow> nat \<Rightarrow> nat \<Rightarrow> py_error + ustring" where
  "batch_decode dataset indices i n =
     (case load_batch dataset indices of
        Inl e \<Rightarrow> Inl e
      | Inr (names, categories) \<Rightarrow> decode_item dataset names i n)"

section \<open>Auxiliary notions for the statements\<close>

text \<open>The row of length \<open>n\<close> that is \<open>1\<close> at position \<open>i\<close> and \<open>0\<close> elsewhere.\<close>

definition one_hot :: "nat \<Rightarrow> nat \<Rightarrow> int list" where
  "one_hot n i = (replicate n 0)[i := 1]"

definition HYPHEN :: uchar where "HYPHEN = 45"

text \<open>
  A directory for concrete scenarios: the files in the order \<open>glob\<close> yields them, each
  with its text. The texts used below are ASCII or bare combining marks, which
  canonical decomposition leaves as they are; the category is \<open>Mn\<close> on the combining
  diacritical marks U+0300 to U+036F and is not told apart elsewhere, since the loader
  only compares it with \<open>Mn\<close>.
\<close>

definition sample_extern :: "(ustring \<times> ustring) list \<Rightarrow> extern" where
  "sample_extern files =
     \<lparr>glob_glob = (\<lambda>pattern. map fst files),
      open_read = (\<lambda>filename. case map_of files filename of
                                 None \<Rightarrow> Inl OSError
                               | Some content \<Rightarrow> Inr content),
      normalize_NFD = (\<lambda>s. s),
      unicodedata_category = (\<lambda>c. if 768 \<le> c \<and> c \<le> 879 then ''Mn'' else ''Lo'')\<rparr>"

text \<open>The pattern of the notebook and the directories of the scenarios.\<close>

definition PATTERN :: ustring where
  "PATTERN = ustr ''data/names/*.txt''"

text \<open>Two categories, three names: the scenario of two files loaded in this order.\<close>

definition dir_two_files :: "(ustring \<times> ustring) list" where
  "dir_two_files =
     [(ustr ''data/names/English.txt'', ustr ''Smith\<newline>Jones\<newline>''),
      (ustr ''data/names/Italian.txt'', ustr ''Rossi\<newline>'')]"

text \<open>A line that ends in a space, followed by a blank line.\<close>

definition dir_blank_line :: "(ustring \<times> ustring) list" where
  "dir_blank_line =
     [(ustr ''data/names/English.txt'', ustr ''Smith \<newline>\<newline>Jones\<newline>'')]"


text \<open>Two files of the same base name in two directories, as \<open>data/*/English.txt\<close> matches.\<close>

definition dir_same_name :: "(ustring \<times> ustring) list" where
  "dir_same_name =
     [(ustr ''data/a/English.txt'', ustr ''Smith\<newline>''),
      (ustr ''data/b/English.txt'', ustr ''Jones\<newline>'')]"

text \<open>One name of one letter; two names of different lengths; a name with a digit.\<close>

definition dir_single :: "(ustring \<times> ustring) list" where
  "dir_single = [(ustr ''data/names/Czech.txt'', ustr ''A\<newline>'')]"

definition dir_batch :: "(ustring \<times> ustring) list" where
  "dir_batch = [(ustr ''data/names/Czech.txt'', ustr ''Abl\<newline>Zz\<newline>'')]"

definition dir_digit :: "(ustring \<times> ustring) list" where
  "dir_digit = [(ustr ''data/names/Czech.txt'', ustr ''A1\<newline>Zz\<newline>'')]"

definition dir_hyphen :: "(ustring \<times> ustring) list" where
  "dir_hyphen = [(ustr ''data/names/French.txt'', ustr ''A-B\<newline>'')]"

text \<open>The one-hot rows of a text, one after the other, and the tensor they make.\<close>

definition one_hot_rows :: "NameDataset \<Rightarrow> ustring \<Rightarrow> int list" where
  "one_hot_rows self name = concat (map (\<lambda>c. one_hot 58 (letter_get self c)) name)"

definition encoded :: "NameDataset \<Rightarrow> ustring \<Rightarrow> tensor" where
  "encoded self name = \<lparr>shape = [length name, 1, 58], elems = one_hot_rows self name\<rparr>"

text \<open>The datasets that the constructor builds over some of these directories.\<close>

abbreviation ds_batch :: NameDataset where
  "ds_batch \<equiv> dataset_of ([ustr ''Czech'' \<mapsto> 0], [0 \<mapsto> ustr ''Czech''],
                  [(ustr ''Abl'', ustr ''Czech''), (ustr ''Zz'', ustr ''Czech'')])"

abbreviation ds_digit :: NameDataset where
  "ds_digit \<equiv> dataset_of ([ustr ''Czech'' \<mapsto> 0], [0 \<mapsto> ustr ''Czech''],
                  [(ustr ''A1'', ustr ''Czech''), (ustr ''Zz'', ustr ''Czech'')])"

abbreviation ds_single :: NameDataset where
  "ds_single \<equiv> dataset_of ([ustr ''Czech'' \<mapsto> 0], [0 \<mapsto> ustr ''Czech''],
                  [(ustr ''A'', ustr ''Czech'')])"

abbreviation ds_none :: NameDataset where
  "ds_none \<equiv> dataset_of (Map.empty, Map.empty, [])"

abbreviation ds_hyphen :: NameDataset where
  "ds_hyphen \<equiv> dataset_of ([ustr ''French'' \<mapsto> 0], [0 \<mapsto> ustr ''French''],
                   [(ustr ''A-B'', ustr ''French'')])"


section \<open>The alphabet and the letter table\<close>

lemma ALL_LETTERS_value:
  "ALL_LETTERS = [45, 97, 98, 99, 100, 101, 102, 103, 104, 105, 106, 107, 108, 109, 110, 111,
     112, 113, 114, 115, 116, 117, 118, 119, 120, 121, 122, 65, 66, 67, 68, 69, 70, 71, 72, 73,
     74, 75, 76, 77, 78, 79, 80, 81, 82, 83, 84, 85, 86, 87, 88, 89, 90, 32, 46, 44, 59, 39]"
  by (simp add: ALL_LETTERS_def ascii_letters_def ustr_def)

lemma length_ALL_LETTERS: "length ALL_LETTERS = 58"
  by (simp add: ALL_LETTERS_value)

lemma distinct_ALL_LETTERS: "distinct ALL_LETTERS"
  by (simp add: ALL_LETTERS_value)

lemma load_data_no_match:
  "glob_glob ext path = [] \<Longrightarrow> load_data ext path = Inr (Map.empty, Map.empty, [])"
  by (simp add: load_data_def)

lemma foldl_enum_notin:
  "c \<notin> set xs \<Longrightarrow> foldl (\<lambda>m (idx, letter). m(letter \<mapsto> idx)) m (enumerate k xs) c = m c"
  by (induction xs arbitrary: m k) auto

lemma foldl_enum_distinct:
  "distinct xs \<Longrightarrow> i < length xs \<Longrightarrow>
   foldl (\<lambda>m (idx, letter). m(letter \<mapsto> idx)) m (enumerate k xs) (xs ! i) = Some (k + i)"
proof (induction xs arbitrary: m k i)
  case Nil
  then show ?case by simp
next
  case (Cons x xs)
  show ?case
  proof (cases i)
    case 0
    with Cons.prems foldl_enum_notin [of x xs "m(x \<mapsto> k)" "Suc k"] show ?thesis
      by (simp del: fun_upd_apply add: fun_upd_same)
  next
    case (Suc j)
    with Cons.prems Cons.IH [of j "m(x \<mapsto> k)" "Suc k"] show ?thesis
      by (simp del: fun_upd_apply)
  qed
qed

section \<open>One-hot rows and their greatest entry\<close>

lemma length_one_hot [simp]: "length (one_hot n i) = n"
  by (simp add: one_hot_def)

lemma one_hot_split: "i < n \<Longrightarrow> one_hot n i = replicate i 0 @ 1 # replicate (n - Suc i) 0"
  by (simp add: one_hot_def upd_conv_take_nth_drop min_def)

lemma argmax_scan_zeros: "0 \<le> bv \<Longrightarrow> argmax_scan best bv k (replicate m 0) = best"
  by (induction m arbitrary: k) auto

lemma argmax_scan_first_one:
  "argmax_scan best 0 k (replicate j 0 @ 1 # replicate m 0) = k + j"
  by (induction j arbitrary: k) (auto simp: argmax_scan_zeros)

lemma argmax_one_hot: "i < n \<Longrightarrow> argmax_list (one_hot n i) = i"
proof (cases i)
  case 0
  assume "i < n"
  with 0 obtain m where "n = Suc m" by (cases n) auto
  with 0 show ?thesis by (simp add: one_hot_def argmax_scan_zeros)
next
  case (Suc j)
  assume "i < n"
  with Suc have "one_hot n i = 0 # (replicate j 0 @ 1 # replicate (n - Suc i) 0)"
    by (simp add: one_hot_split)
  with Suc show ?thesis by (simp add: argmax_scan_first_one)
qed

lemma argmax_zeros: "argmax_list (replicate n 0) = 0"
  by (cases n) (auto simp: argmax_scan_zeros)

lemma setitem3_row:
  "shape t = [L, 1, n] \<Longrightarrow> li < L \<Longrightarrow> k < n \<Longrightarrow>
   setitem3 t li 0 k v = Inr (t\<lparr>elems := (elems t)[li * n + k := v]\<rparr>)"
  by (simp add: setitem3_def)

lemma name_loop_concat:
  assumes "shape t = [L, 1, n]" and "elems t = pre @ replicate (length xs * n) 0"
    and "length pre = k * n" and "k + length xs \<le> L" and "\<forall>c. letter_get self c < n"
  shows "name_loop self (enumerate k xs) t =
         Inr (t\<lparr>elems := pre @ concat (map (\<lambda>c. one_hot n (letter_get self c)) xs)\<rparr>)"
  using assms
proof (induction xs arbitrary: t pre k)
  case Nil
  then show ?case by simp
next
  case (Cons c cs)
  let ?i = "letter_get self c"
  let ?t = "t\<lparr>elems := (pre @ one_hot n ?i) @ replicate (length cs * n) 0\<rparr>"
  have i: "?i < n" using Cons.prems(5) by simp
  have "(elems t)[k * n + ?i := 1] = (pre @ one_hot n ?i) @ replicate (length cs * n) 0"
    using Cons.prems(2,3) i
    by (simp add: list_update_append replicate_add one_hot_def)
  then have step: "setitem3 t k 0 ?i 1 = Inr ?t"
    using Cons.prems(1,4) i by (simp add: setitem3_row)
  have "name_loop self (enumerate (Suc k) cs) ?t =
        Inr (?t\<lparr>elems := (pre @ one_hot n ?i) @
               concat (map (\<lambda>c. one_hot n (letter_get self c)) cs)\<rparr>)"
    using Cons.prems by (intro Cons.IH) simp_all
  with step show ?case by simp
qed

section \<open>Reading a tensor of rows back\<close>

lemma length_concat_blocks:
  "\<forall>b\<in>set bs. length b = n \<Longrightarrow> length (concat bs) = length bs * n"
  by (induction bs) auto

lemma concat_block:
  "\<forall>b\<in>set bs. length b = n \<Longrightarrow> j < length bs \<Longrightarrow>
   take n (drop (j * n) (concat bs)) = bs ! j"
proof (induction bs arbitrary: j)
  case Nil
  then show ?case by simp
next
  case (Cons b bs)
  then show ?case by (cases j) auto
qed

lemma map_upt_nth: "map (\<lambda>j. g (xs ! j)) [0 ..< length xs] = map g xs"
proof -
  have "map g xs = map g (map (nth xs) [0 ..< length xs])"
    by (simp only: map_nth)
  then show ?thesis by (simp only: map_map comp_def)
qed

lemma rows_of_concat:
  assumes "0 < n" and "\<forall>b\<in>set bs. length b = n"
  shows "rows_of n (concat bs) = bs"
proof -
  have "map (\<lambda>j. take n (drop (j * n) (concat bs))) [0 ..< length bs] =
        map (\<lambda>j. bs ! j) [0 ..< length bs]"
    using assms(2) by (intro map_cong refl) (simp add: concat_block)
  moreover have "length (concat bs) = length bs * n"
    using assms(2) by (rule length_concat_blocks)
  ultimately show ?thesis
    using assms(1) by (simp add: rows_of_def map_nth)
qed

lemma join_letters_in_range:
  "\<forall>k\<in>set ks. k < length letters \<Longrightarrow>
   join_letters letters (map (\<lambda>k. \<lparr>shape = sh, elems = [int k]\<rparr>) ks) =
   Inr (map (\<lambda>k. letters ! k) ks)"
  by (induction ks) (auto simp: tensor_index_def py_getitem_def)

lemma join_letters_out_of_range:
  "\<exists>k\<in>set ks. length letters \<le> k \<Longrightarrow>
   join_letters letters (map (\<lambda>k. \<lparr>shape = sh, elems = [int k]\<rparr>) ks) = Inl IndexError"
proof (induction ks)
  case Nil
  then show ?case by simp
next
  case (Cons k ks)
  show ?case
  proof (cases "k < length letters")
    case True
    with Cons.prems have "\<exists>k\<in>set ks. length letters \<le> k" by auto
    with Cons.IH True show ?thesis
      by (simp add: tensor_index_def py_getitem_def)
  next
    case False
    then show ?thesis by (simp add: tensor_index_def py_getitem_def)
  qed
qed

lemma take1_drop: "j < length xs \<Longrightarrow> take (Suc 0) (drop j xs) = [xs ! j]"
  by (simp add: take_Suc_conv_app_nth)

lemma tensor_to_name_rows:
  assumes "shape t = L # sh @ [n]" and "prod_list sh = 1" and "0 < n"
    and "elems t = concat rows" and "length rows = L" and "\<forall>r\<in>set rows. length r = n"
  shows "tensor_to_name self t =
         join_letters (all_letters self)
           (map (\<lambda>k. \<lparr>shape = sh, elems = [int k]\<rparr>) (map argmax_list rows))"
proof -
  have am: "argmax_last t = Inr \<lparr>shape = L # sh, elems = map (\<lambda>r. int (argmax_list r)) rows\<rparr>"
    using assms by (simp add: argmax_last_def rows_of_concat butlast_append)
  have "map (\<lambda>j. \<lparr>shape = sh, elems = take (Suc 0) (drop j (map (\<lambda>r. int (argmax_list r)) rows))\<rparr>)
          [0 ..< length rows] =
        map (\<lambda>j. \<lparr>shape = sh, elems = [int (argmax_list (rows ! j))]\<rparr>) [0 ..< length rows]"
    by (intro map_cong refl) (simp add: take1_drop)
  also have "\<dots> = map (\<lambda>r. \<lparr>shape = sh, elems = [int (argmax_list r)]\<rparr>) rows"
    by (rule map_upt_nth)
  finally have "iter_tensor \<lparr>shape = L # sh, elems = map (\<lambda>r. int (argmax_list r)) rows\<rparr> =
        Inr (map (\<lambda>r. \<lparr>shape = sh, elems = [int (argmax_list r)]\<rparr>) rows)"
    using assms(2,5) by (simp add: iter_tensor_def)
  with am show ?thesis by (simp add: tensor_to_name_def comp_def)
qed

section \<open>Encoding and decoding of a constructed dataset\<close>

lemma init_fields:
  assumes "NameDataset_init ext path = Inr self"
  shows "all_letters self = ALL_LETTERS" and "n_letters self = 58" and "NULL_IDX self = 0"
    and "letter2idx self = dict_of_enumerate ALL_LETTERS"
  using assms
  by (auto simp: NameDataset_init_def dataset_of_def length_ALL_LETTERS split: sum.splits)

lemma init_corpus:
  assumes "NameDataset_init ext path = Inr self"
  shows "load_data ext path = Inr (cat2idx self, idx2cat self, data self)"
  using assms by (auto simp: NameDataset_init_def dataset_of_def split: sum.splits)

lemma letter_get_member:
  assumes "NameDataset_init ext path = Inr self" and "i < 58"
  shows "letter_get self (ALL_LETTERS ! i) = i"
  using assms foldl_enum_distinct [OF distinct_ALL_LETTERS, of i Map.empty 0]
  by (simp add: letter_get_def init_fields dict_of_enumerate_def length_ALL_LETTERS)

lemma letter_get_unknown:
  assumes "NameDataset_init ext path = Inr self" and "c \<notin> set ALL_LETTERS"
  shows "letter_get self c = 0"
  using assms foldl_enum_notin [of c ALL_LETTERS Map.empty 0]
  by (simp add: letter_get_def init_fields dict_of_enumerate_def)

lemma letter_get_cases:
  assumes "NameDataset_init ext path = Inr self"
  shows "(c \<in> set ALL_LETTERS \<and> letter_get self c < 58 \<and> ALL_LETTERS ! letter_get self c = c)
       \<or> (c \<notin> set ALL_LETTERS \<and> letter_get self c = 0)"
proof (cases "c \<in> set ALL_LETTERS")
  case True
  then obtain i where "i < 58" and "ALL_LETTERS ! i = c"
    by (auto simp: in_set_conv_nth length_ALL_LETTERS)
  with letter_get_member [OF assms, of i] True show ?thesis by auto
next
  case False
  with letter_get_unknown [OF assms] show ?thesis by simp
qed

lemma letter_get_bound:
  "NameDataset_init ext path = Inr self \<Longrightarrow> letter_get self c < 58"
  using letter_get_cases [of ext path self c] by auto

lemma name_to_tensor_rows:
  assumes "NameDataset_init ext path = Inr self"
  shows "name_to_tensor self name =
         Inr \<lparr>shape = [length name, 1, 58],
              elems = concat (map (\<lambda>c. one_hot 58 (letter_get self c)) name)\<rparr>"
proof -
  have "name_loop self (enumerate 0 name) (torch_zeros [length name, 1, 58]) =
        Inr ((torch_zeros [length name, 1, 58])
          \<lparr>elems := [] @ concat (map (\<lambda>c. one_hot 58 (letter_get self c)) name)\<rparr>)"
    using letter_get_bound [OF assms]
    by (intro name_loop_concat [where L = "length name"]) (simp_all add: torch_zeros_def)
  then show ?thesis
    by (simp add: name_to_tensor_def init_fields [OF assms] torch_zeros_def)
qed

lemma decode_one_hot_rows:
  assumes "NameDataset_init ext path = Inr self" and "prod_list sh = 1"
  shows "tensor_to_name self
           \<lparr>shape = length name # sh @ [58],
            elems = concat (map (\<lambda>c. one_hot 58 (letter_get self c)) name)\<rparr> =
         Inr (map (\<lambda>c. ALL_LETTERS ! letter_get self c) name)"
proof -
  let ?rows = "map (\<lambda>c. one_hot 58 (letter_get self c)) name"
  have am: "map argmax_list ?rows = map (letter_get self) name"
    using letter_get_bound [OF assms(1)] by (simp add: argmax_one_hot)
  have dec: "tensor_to_name self \<lparr>shape = length name # sh @ [58], elems = concat ?rows\<rparr> =
        join_letters (all_letters self)
          (map (\<lambda>k. \<lparr>shape = sh, elems = [int k]\<rparr>) (map argmax_list ?rows))"
    using assms(2)
    by (intro tensor_to_name_rows [where n = 58 and L = "length name" and rows = ?rows]) simp_all
  have "join_letters ALL_LETTERS
          (map (\<lambda>k. \<lparr>shape = sh, elems = [int k]\<rparr>) (map (letter_get self) name)) =
        Inr (map (\<lambda>k. ALL_LETTERS ! k) (map (letter_get self) name))"
    using letter_get_bound [OF assms(1)]
    by (intro join_letters_in_range) (simp add: length_ALL_LETTERS)
  then show ?thesis
    unfolding dec am init_fields(1) [OF assms(1)] by (simp only: map_map comp_def)
qed

lemma decode_encode:
  assumes "NameDataset_init ext path = Inr self" and "name_to_tensor self name = Inr t"
  shows "tensor_to_name self t = Inr (map (\<lambda>c. ALL_LETTERS ! letter_get self c) name)"
  using assms decode_one_hot_rows [OF assms(1), of "[1]" name]
  by (simp add: name_to_tensor_rows [OF assms(1)])


section \<open>The sample directories\<close>

lemma ustr_eq_iff: "ustr s = ustr t \<longleftrightarrow> s = t"
  by (simp add: ustr_def inj_on_def)

lemma sample_glob: "glob_glob (sample_extern files) pattern = map fst files"
  by (simp add: sample_extern_def)

lemma sample_read:
  "open_read (sample_extern files) filename =
     (case map_of files filename of None \<Rightarrow> Inl OSError | Some content \<Rightarrow> Inr content)"
  by (simp add: sample_extern_def)

lemma ustr_Cons: "ustr (c # s) = of_char c # ustr s"
  by (simp add: ustr_def)

lemma ustr_Nil: "ustr [] = []"
  by (simp add: ustr_def)

lemma length_ustr: "length (ustr s) = length s"
  by (simp add: ustr_def)

lemma init_sample:
  "load_data ext path = Inr loaded \<Longrightarrow> NameDataset_init ext path = Inr (dataset_of loaded)"
  by (simp add: NameDataset_init_def)

lemma sample_file_items:
  "file_items (sample_extern files) category content =
     map (\<lambda>line. (filter (\<lambda>c. \<not> (768 \<le> c \<and> c \<le> 879)) line, category))
       (split NEWLINE (strip content))"
  by (simp add: file_items_def unicode_to_ascii_def sample_extern_def)

lemma category_English: "category_of (ustr ''data/names/English.txt'') = ustr ''English''"
  by code_simp

lemma category_Italian: "category_of (ustr ''data/names/Italian.txt'') = ustr ''Italian''"
  by code_simp

lemma category_Czech: "category_of (ustr ''data/names/Czech.txt'') = ustr ''Czech''"
  by code_simp

lemma category_French: "category_of (ustr ''data/names/French.txt'') = ustr ''French''"
  by code_simp

lemma category_a: "category_of (ustr ''data/a/English.txt'') = ustr ''English''"
  by code_simp

lemma category_b: "category_of (ustr ''data/b/English.txt'') = ustr ''English''"
  by code_simp

lemmas sample_categories =
  category_English category_Italian category_Czech category_French category_a category_b

lemmas sample_load =
  load_data_def sample_glob sample_read sample_file_items sample_categories Let_def
  strip_def isspace_def NEWLINE_def ustr_eq_iff

lemma load_blank_line:
  "load_data (sample_extern dir_blank_line) PATTERN =
   Inr ([ustr ''English'' \<mapsto> 0], [0 \<mapsto> ustr ''English''],
        [(ustr ''Smith '', ustr ''English''), ([], ustr ''English''),
         (ustr ''Jones'', ustr ''English'')])"
  by (simp add: dir_blank_line_def sample_load) (simp add: ustr_def isspace_def)

lemma load_two_files:
  "load_data (sample_extern dir_two_files) PATTERN =
   Inr ([ustr ''English'' \<mapsto> 0, ustr ''Italian'' \<mapsto> 1],
        [0 \<mapsto> ustr ''English'', 1 \<mapsto> ustr ''Italian''],
        [(ustr ''Smith'', ustr ''English''), (ustr ''Jones'', ustr ''English''),
         (ustr ''Rossi'', ustr ''Italian'')])"
  by (simp add: dir_two_files_def sample_load) (simp add: ustr_def isspace_def)

lemma load_same_name2:
  "load_data (sample_extern dir_same_name) (ustr ''data/*/*.txt'') =
   Inr ([ustr ''English'' \<mapsto> 1], [0 \<mapsto> ustr ''English'', 1 \<mapsto> ustr ''English''],
        [(ustr ''Smith'', ustr ''English''), (ustr ''Jones'', ustr ''English'')])"
  by (simp add: dir_same_name_def sample_load) (simp add: ustr_def isspace_def)


lemma load_single:
  "load_data (sample_extern dir_single) PATTERN =
   Inr ([ustr ''Czech'' \<mapsto> 0], [0 \<mapsto> ustr ''Czech''], [(ustr ''A'', ustr ''Czech'')])"
  by (simp add: dir_single_def sample_load) (simp add: ustr_def isspace_def)

lemma load_batch_dir:
  "load_data (sample_extern dir_batch) PATTERN =
   Inr ([ustr ''Czech'' \<mapsto> 0], [0 \<mapsto> ustr ''Czech''],
        [(ustr ''Abl'', ustr ''Czech''), (ustr ''Zz'', ustr ''Czech'')])"
  by (simp add: dir_batch_def sample_load) (simp add: ustr_def isspace_def)

lemma load_digit:
  "load_data (sample_extern dir_digit) PATTERN =
   Inr ([ustr ''Czech'' \<mapsto> 0], [0 \<mapsto> ustr ''Czech''],
        [(ustr ''A1'', ustr ''Czech''), (ustr ''Zz'', ustr ''Czech'')])"
  by (simp add: dir_digit_def sample_load) (simp add: ustr_def isspace_def)

lemma load_hyphen:
  "load_data (sample_extern dir_hyphen) PATTERN =
   Inr ([ustr ''French'' \<mapsto> 0], [0 \<mapsto> ustr ''French''], [(ustr ''A-B'', ustr ''French'')])"
  by (simp add: dir_hyphen_def sample_load) (simp add: ustr_def isspace_def)

lemma init_no_files: "NameDataset_init (sample_extern []) pattern = Inr ds_none"
  by (simp add: NameDataset_init_def load_data_no_match sample_glob)

section \<open>Lines of a file\<close>

lemma split_not_Nil: "split sep s \<noteq> []"
  by (induction s) (auto split: list.splits)

lemma join_Cons: "ls \<noteq> [] \<Longrightarrow> join sep (l # ls) = l @ sep # join sep ls"
  by (cases ls) auto

lemma join_split: "join sep (split sep s) = s"
proof (induction s)
  case Nil
  then show ?case by simp
next
  case (Cons c cs)
  obtain l ls where sp: "split sep cs = l # ls"
    using split_not_Nil [of sep cs] by (cases "split sep cs") auto
  show ?case
  proof (cases "c = sep")
    case True
    with Cons sp show ?thesis by simp
  next
    case False
    with Cons sp show ?thesis by (cases ls) auto
  qed
qed

lemma length_split: "length (split sep s) = Suc (count_list s sep)"
  by (induction s) (auto split: list.splits simp: split_not_Nil)

lemma strip_decompose:
  "\<exists>pre post. s = pre @ strip s @ post \<and> list_all isspace pre \<and> list_all isspace post"
proof -
  let ?u = "dropWhile isspace s"
  let ?post = "rev (takeWhile isspace (rev ?u))"
  have "strip s @ ?post = rev (takeWhile isspace (rev ?u) @ dropWhile isspace (rev ?u))"
    by (simp only: strip_def rev_append)
  also have "\<dots> = rev (rev ?u)"
    by (simp only: takeWhile_dropWhile_id)
  finally have u: "?u = strip s @ ?post" by simp
  have "s = takeWhile isspace s @ ?u" by simp
  with u have "s = takeWhile isspace s @ strip s @ ?post" by simp
  moreover have "list_all isspace (takeWhile isspace s)"
    by (auto simp: list_all_iff dest: set_takeWhileD)
  moreover have "list_all isspace ?post"
    by (auto simp: list_all_iff dest: set_takeWhileD)
  ultimately show ?thesis by blast
qed

section \<open>What the loop of the loader returns\<close>

lemma foldl_idx_lookup:
  "foldl (\<lambda>m (idx, c). m(idx \<mapsto> c)) m (enumerate k cs) j =
     (if k \<le> j \<and> j < k + length cs then Some (cs ! (j - k)) else m j)"
proof (induction cs arbitrary: m k)
  case Nil
  then show ?case by auto
next
  case (Cons c cs)
  show ?case
  proof (cases "j = k")
    case True
    then show ?thesis
      using Cons.IH [of "m(k \<mapsto> c)" "Suc k"]
      by (simp del: fun_upd_apply add: fun_upd_same)
  next
    case False
    then show ?thesis
      using Cons.IH [of "m(k \<mapsto> c)" "Suc k"]
      by (auto simp del: fun_upd_apply simp add: fun_upd_other nth_Cons')
  qed
qed

lemma foldl_enum_dom:
  "c \<in> set xs \<Longrightarrow> foldl (\<lambda>m (idx, letter). m(letter \<mapsto> idx)) m (enumerate k xs) c \<noteq> None"
proof (induction xs arbitrary: m k)
  case Nil
  then show ?case by simp
next
  case (Cons x xs)
  show ?case
  proof (cases "c \<in> set xs")
    case True
    with Cons.IH [of "m(x \<mapsto> k)" "Suc k"] show ?thesis by (simp del: fun_upd_apply)
  next
    case False
    with Cons.prems have "c = x" by simp
    with False foldl_enum_notin [of x xs "m(x \<mapsto> k)" "Suc k"] show ?thesis
      by (simp del: fun_upd_apply add: fun_upd_same)
  qed
qed

lemma foldl_enum_Some:
  assumes "distinct xs"
  shows "foldl (\<lambda>m (idx, letter). m(letter \<mapsto> idx)) Map.empty (enumerate 0 xs) c = Some i
         \<longleftrightarrow> i < length xs \<and> xs ! i = c"
proof (cases "c \<in> set xs")
  case False
  with foldl_enum_notin [of c xs Map.empty 0] show ?thesis by auto
next
  case True
  then obtain j where j: "j < length xs" "xs ! j = c" by (auto simp: in_set_conv_nth)
  with foldl_enum_distinct [OF assms, of j Map.empty 0]
  have "foldl (\<lambda>m (idx, letter). m(letter \<mapsto> idx)) Map.empty (enumerate 0 xs) c = Some j"
    by simp
  moreover have "i < length xs \<and> xs ! i = c \<longleftrightarrow> i = j"
    using assms j by (auto simp: nth_eq_iff_index_eq)
  ultimately show ?thesis by auto
qed

lemma load_files_result:
  assumes "load_files ext (enumerate k fs) (c2i, i2c, d) = Inr (c2i', i2c', d')"
  shows "c2i' = foldl (\<lambda>m (idx, c). m(c \<mapsto> idx)) c2i (enumerate k (map category_of fs)) \<and>
         i2c' = foldl (\<lambda>m (idx, c). m(idx \<mapsto> c)) i2c (enumerate k (map category_of fs)) \<and>
         (\<exists>contents. map (open_read ext) fs = map Inr contents \<and>
            d' = d @ concat (map2 (\<lambda>f content. file_items ext (category_of f) content)
                              fs contents))"
  using assms
proof (induction fs arbitrary: k c2i i2c d)
  case Nil
  then show ?case by simp
next
  case (Cons f fs)
  from Cons.prems obtain content where rd: "open_read ext f = Inr content"
    by (cases "open_read ext f") (simp_all add: Let_def)
  let ?c = "category_of f"
  from Cons.prems rd
  have rest: "load_files ext (enumerate (Suc k) fs)
          (c2i(?c \<mapsto> k), i2c(k \<mapsto> ?c), d @ file_items ext ?c content) = Inr (c2i', i2c', d')"
    by (simp add: Let_def del: fun_upd_apply)
  from Cons.IH [OF rest] obtain contents where
    a: "c2i' = foldl (\<lambda>m (idx, c). m(c \<mapsto> idx)) (c2i(?c \<mapsto> k))
               (enumerate (Suc k) (map category_of fs))" and
    b: "i2c' = foldl (\<lambda>m (idx, c). m(idx \<mapsto> c)) (i2c(k \<mapsto> ?c))
               (enumerate (Suc k) (map category_of fs))" and
    c: "map (open_read ext) fs = map Inr contents" and
    e: "d' = (d @ file_items ext ?c content) @
           concat (map2 (\<lambda>f content. file_items ext (category_of f) content) fs contents)"
    by blast
  have "map (open_read ext) (f # fs) = map Inr (content # contents) \<and>
        d' = d @ concat (map2 (\<lambda>f content. file_items ext (category_of f) content)
                           (f # fs) (content # contents))"
    using rd c e by simp
  then have C: "\<exists>contents. map (open_read ext) (f # fs) = map Inr contents \<and>
        d' = d @ concat (map2 (\<lambda>f content. file_items ext (category_of f) content)
                           (f # fs) contents)"
    by (rule exI)
  have A: "c2i' = foldl (\<lambda>m (idx, c). m(c \<mapsto> idx)) c2i
                    (enumerate k (map category_of (f # fs)))"
    using a by (simp del: fun_upd_apply)
  have B: "i2c' = foldl (\<lambda>m (idx, c). m(idx \<mapsto> c)) i2c
                    (enumerate k (map category_of (f # fs)))"
    using b by (simp del: fun_upd_apply)
  from A B C show ?case by blast
qed

lemma load_data_result:
  assumes "load_data ext path = Inr (c2i, i2c, d)"
  shows "c2i = foldl (\<lambda>m (idx, c). m(c \<mapsto> idx)) Map.empty
                 (enumerate 0 (map category_of (glob_glob ext path)))"
    and "i2c = foldl (\<lambda>m (idx, c). m(idx \<mapsto> c)) Map.empty
                 (enumerate 0 (map category_of (glob_glob ext path)))"
    and "\<exists>contents. map (open_read ext) (glob_glob ext path) = map Inr contents \<and>
            d = concat (map2 (\<lambda>f content. file_items ext (category_of f) content)
                         (glob_glob ext path) contents)"
  using load_files_result [of ext 0 "glob_glob ext path" Map.empty Map.empty "[]" c2i i2c d] assms
  by (simp_all add: load_data_def)

lemma file_items_category: "(name, category) \<in> set (file_items ext c content) \<Longrightarrow> category = c"
  by (auto simp: file_items_def)

lemma py_getitem_member: "py_getitem xs i = Inr x \<Longrightarrow> x \<in> set xs"
  by (auto simp: py_getitem_def split: if_splits)

lemma py_getitem_nat: "k < length xs \<Longrightarrow> py_getitem xs (int k) = Inr (xs ! k)"
  by (simp add: py_getitem_def)

lemma item_category_known:
  assumes "NameDataset_init ext path = Inr self"
    and "(name, category) \<in> set (data self)"
  shows "\<exists>c. cat2idx self category = Some c"
proof -
  let ?fs = "glob_glob ext path"
  have ld: "load_data ext path = Inr (cat2idx self, idx2cat self, data self)"
    by (rule init_corpus [OF assms(1)])
  from load_data_result(3) [OF ld] obtain contents where
    d: "data self = concat (map2 (\<lambda>f content. file_items ext (category_of f) content)
                               ?fs contents)"
    by blast
  with assms(2) obtain f content where "(f, content) \<in> set (zip ?fs contents)"
    and "(name, category) \<in> set (file_items ext (category_of f) content)"
    by auto
  then have "category \<in> set (map category_of ?fs)"
    by (auto dest: set_zip_leftD file_items_category)
  then have "foldl (\<lambda>m (idx, c). m(c \<mapsto> idx)) Map.empty
               (enumerate 0 (map category_of ?fs)) category \<noteq> None"
    by (rule foldl_enum_dom)
  with load_data_result(1) [OF ld] show ?thesis by auto
qed

section \<open>Items and batches in closed form\<close>

lemma length_one_hot_rows [simp]: "length (one_hot_rows self name) = length name * 58"
  by (simp add: one_hot_rows_def length_concat_blocks [where n = 58])

lemma name_to_tensor_encoded:
  "NameDataset_init ext path = Inr self \<Longrightarrow> name_to_tensor self name = Inr (encoded self name)"
  by (simp add: name_to_tensor_rows encoded_def one_hot_rows_def)

lemma getitem_total:
  assumes "NameDataset_init ext path = Inr self"
    and "py_getitem (data self) idx = Inr (name, category)"
  shows "\<exists>c. cat2idx self category = Some c \<and>
             getitem self idx =
               Inr (\<lparr>shape = [length name, 1, 58],
                     elems = concat (map (\<lambda>c. one_hot 58 (letter_get self c)) name)\<rparr>,
                    torch_tensor1 (int c))"
proof -
  from py_getitem_member [OF assms(2)] item_category_known [OF assms(1)]
  obtain c where "cat2idx self category = Some c" by blast
  with assms(2) name_to_tensor_rows [OF assms(1), of name] show ?thesis
    by (simp add: getitem_def)
qed

lemma getitem_encoded:
  assumes "NameDataset_init ext path = Inr self" and "k < length (data self)"
  shows "getitem self (int k) =
         Inr (encoded self (fst (data self ! k)),
              torch_tensor1 (int (the (cat2idx self (snd (data self ! k))))))"
proof -
  obtain name category where nc: "data self ! k = (name, category)"
    by (cases "data self ! k")
  with assms(2) have "py_getitem (data self) (int k) = Inr (name, category)"
    by (simp add: py_getitem_nat)
  from getitem_total [OF assms(1) this] nc show ?thesis
    by (auto simp: encoded_def one_hot_rows_def)
qed

lemma fetch_encoded:
  assumes "NameDataset_init ext path = Inr self" and "\<forall>k\<in>set ks. k < length (data self)"
  shows "fetch self (map int ks) =
         Inr (map (\<lambda>k. (encoded self (fst (data self ! k)),
                         torch_tensor1 (int (the (cat2idx self (snd (data self ! k))))))) ks)"
  using assms(2)
  by (induction ks) (simp_all add: getitem_encoded [OF assms(1)])

lemma fold_max_0: "xs \<noteq> [] \<Longrightarrow> fold max xs (0::nat) = Max (set xs)"
proof -
  assume "xs \<noteq> []"
  have "fold max xs 0 = Max (set (0 # xs))" by (simp only: Max.set_eq_fold)
  also have "\<dots> = max 0 (Max (set xs))" using \<open>xs \<noteq> []\<close> by simp
  finally show ?thesis by simp
qed

lemma pad_sequence_encoded:
  assumes "texts \<noteq> []"
  shows "pad_sequence (map (encoded self) texts) 0 =
         Inr \<lparr>shape = [length texts, Max (set (map length texts)), 1, 58],
              elems = concat (map (\<lambda>s. one_hot_rows self s @
                        replicate ((Max (set (map length texts)) - length s) * 58) 0) texts)\<rparr>"
proof -
  have t: "tl (shape (hd (map (encoded self) texts))) = [1, 58]"
    using assms by (simp add: hd_map encoded_def)
  have a: "\<not> list_ex (\<lambda>t. shape t = []) (map (encoded self) texts)"
    by (simp add: list_ex_iff encoded_def)
  have b: "\<not> list_ex (\<lambda>t. tl (shape t) \<noteq> [1, 58]) (map (encoded self) texts)"
    by (simp add: list_ex_iff encoded_def)
  show ?thesis
    using assms a b
    by (simp add: pad_sequence_def Let_def t fold_max_0 comp_def)
       (simp add: encoded_def)
qed

lemma torch_cat_singletons:
  assumes "cs \<noteq> []"
  shows "torch_cat (map torch_tensor1 cs) = Inr \<lparr>shape = [length cs], elems = cs\<rparr>"
proof -
  have f: "filter (\<lambda>t. shape t \<noteq> [0]) (map torch_tensor1 cs) = map torch_tensor1 cs"
    by (simp add: filter_id_conv torch_tensor1_def)
  have h: "tl (shape (hd (map torch_tensor1 cs))) = []"
    using assms by (simp add: hd_map torch_tensor1_def)
  have e: "\<not> list_ex (\<lambda>t. shape t = [] \<or> tl (shape t) \<noteq> []) (map torch_tensor1 cs)"
    by (simp add: list_ex_iff torch_tensor1_def)
  show ?thesis
    using assms e
    by (simp add: torch_cat_def Let_def f h)
       (simp add: comp_def torch_tensor1_def sum_list_triv)
qed

lemma collate_fn_encoded:
  assumes "NameDataset_init ext path = Inr self" and "batch \<noteq> []"
    and "map fst batch = map (encoded self) texts"
    and "map snd batch = map torch_tensor1 cs"
  shows "collate_fn self batch =
         Inr (squeeze \<lparr>shape = [length batch, Max (set (map length texts)), 1, 58],
                elems = concat (map (\<lambda>s. one_hot_rows self s @
                          replicate ((Max (set (map length texts)) - length s) * 58) 0) texts)\<rparr>,
              \<lparr>shape = [length batch], elems = cs\<rparr>)"
proof -
  have lt: "length texts = length batch" using assms(3) by (metis length_map)
  have lc: "length cs = length batch" using assms(4) by (metis length_map)
  with assms(2) lt have ne: "texts \<noteq> []" "cs \<noteq> []" by auto
  show ?thesis
    using assms(2)
    by (simp add: collate_fn_def Let_def assms(3,4) pad_sequence_encoded [OF ne(1)]
        torch_cat_singletons [OF ne(2)] init_fields(3) [OF assms(1)] lt lc)
qed

lemma load_batch_encoded:
  assumes init: "NameDataset_init ext path = Inr self"
    and valid: "\<forall>k\<in>set ks. k < length (data self)" and ne: "ks \<noteq> []"
  shows "load_batch self (map int ks) =
     Inr (squeeze \<lparr>shape = [length ks, Max (set (map (\<lambda>k. length (fst (data self ! k))) ks)), 1, 58],
            elems = concat (map (\<lambda>s. one_hot_rows self s @
               replicate ((Max (set (map (\<lambda>k. length (fst (data self ! k))) ks)) - length s) * 58) 0)
               (map (\<lambda>k. fst (data self ! k)) ks))\<rparr>,
          \<lparr>shape = [length ks],
           elems = map (\<lambda>k. int (the (cat2idx self (snd (data self ! k))))) ks\<rparr>)"
proof -
  let ?batch = "map (\<lambda>k. (encoded self (fst (data self ! k)),
                         torch_tensor1 (int (the (cat2idx self (snd (data self ! k))))))) ks"
  let ?texts = "map (\<lambda>k. fst (data self ! k)) ks"
  let ?cs = "map (\<lambda>k. int (the (cat2idx self (snd (data self ! k))))) ks"
  have f: "fetch self (map int ks) = Inr ?batch" by (rule fetch_encoded [OF init valid])
  have "collate_fn self ?batch =
         Inr (squeeze \<lparr>shape = [length ?batch, Max (set (map length ?texts)), 1, 58],
                elems = concat (map (\<lambda>s. one_hot_rows self s @
                          replicate ((Max (set (map length ?texts)) - length s) * 58) 0) ?texts)\<rparr>,
              \<lparr>shape = [length ?batch], elems = ?cs\<rparr>)"
    using ne by (intro collate_fn_encoded [OF init]) (simp_all add: comp_def)
  then show ?thesis by (simp add: load_batch_def f comp_def)
qed

lemma concat_replicate_zeros: "concat (replicate m (replicate n x)) = replicate (m * n) x"
  by (induction m) (simp_all add: replicate_add)

lemma decode_padded:
  assumes "NameDataset_init ext path = Inr self"
  shows "tensor_to_name self
           \<lparr>shape = [length text + m, 58],
            elems = one_hot_rows self text @ replicate (m * 58) 0\<rparr> =
         Inr (map (\<lambda>c. ALL_LETTERS ! letter_get self c) text @ replicate m (ALL_LETTERS ! 0))"
proof -
  let ?rows = "map (\<lambda>c. one_hot 58 (letter_get self c)) text @ replicate m (replicate 58 0)"
  let ?t = "\<lparr>shape = [length text + m, 58],
             elems = one_hot_rows self text @ replicate (m * 58) 0\<rparr>"
  have el: "elems ?t = concat ?rows"
    by (simp add: one_hot_rows_def concat_replicate_zeros)
  have am: "map argmax_list ?rows = map (letter_get self) text @ replicate m 0"
    using letter_get_bound [OF assms] by (simp add: argmax_one_hot argmax_zeros)
  have dec: "tensor_to_name self ?t =
        join_letters (all_letters self)
          (map (\<lambda>k. \<lparr>shape = [], elems = [int k]\<rparr>) (map argmax_list ?rows))"
    using el
    by (intro tensor_to_name_rows [where n = 58 and L = "length text + m" and rows = ?rows])
       auto
  have "join_letters ALL_LETTERS
          (map (\<lambda>k. \<lparr>shape = [], elems = [int k]\<rparr>) (map (letter_get self) text @ replicate m 0)) =
        Inr (map (\<lambda>k. ALL_LETTERS ! k) (map (letter_get self) text @ replicate m 0))"
    using letter_get_bound [OF assms]
    by (intro join_letters_in_range) (auto simp: length_ALL_LETTERS)
  then show ?thesis
    unfolding dec am init_fields(1) [OF assms] by (simp add: comp_def)
qed

lemma decode_alphabet_text:
  assumes "NameDataset_init ext path = Inr self" and "set text \<subseteq> set (all_letters self)"
  shows "map (\<lambda>c. ALL_LETTERS ! letter_get self c) text = text"
proof -
  have "\<forall>c\<in>set text. ALL_LETTERS ! letter_get self c = c"
    using assms(2) letter_get_cases [OF assms(1)] init_fields(1) [OF assms(1)] by auto
  then show ?thesis by (simp add: map_idI)
qed

lemma select_block:
  assumes "\<forall>b\<in>set blocks. length b = l * n" and "i < length blocks"
  shows "select \<lparr>shape = [length blocks, l, n], elems = concat blocks\<rparr> i =
         Inr \<lparr>shape = [l, n], elems = blocks ! i\<rparr>"
  using assms concat_block [of blocks "l * n" i] by (simp add: select_def)

lemma decode_item_padded:
  assumes init: "NameDataset_init ext path = Inr self"
    and blocks: "blocks = map (\<lambda>s. one_hot_rows self s @ replicate ((l - length s) * 58) 0) texts"
    and le: "\<forall>s\<in>set texts. length s \<le> l"
    and i: "i < length texts"
  shows "decode_item self \<lparr>shape = [length texts, l, 58], elems = concat blocks\<rparr> i
           (length (texts ! i)) =
         Inr (map (\<lambda>c. ALL_LETTERS ! letter_get self c) (texts ! i))"
    and "decode_item self \<lparr>shape = [length texts, l, 58], elems = concat blocks\<rparr> i l =
         Inr (map (\<lambda>c. ALL_LETTERS ! letter_get self c) (texts ! i) @
              replicate (l - length (texts ! i)) (ALL_LETTERS ! 0))"
proof -
  let ?s = "texts ! i"
  have len: "length ?s \<le> l" using le i by simp
  have lb: "\<forall>b\<in>set blocks. length b = l * 58"
    using le by (auto simp: blocks add_mult_distrib [symmetric])
  have bi: "blocks ! i = one_hot_rows self ?s @ replicate ((l - length ?s) * 58) 0"
    using i by (simp add: blocks)
  have sel: "select \<lparr>shape = [length texts, l, 58], elems = concat blocks\<rparr> i =
             Inr \<lparr>shape = [l, 58], elems = blocks ! i\<rparr>"
    using select_block [OF lb, of i] i by (simp add: blocks)
  have n1: "narrow \<lparr>shape = [l, 58], elems = blocks ! i\<rparr> (length ?s) =
            Inr \<lparr>shape = [length ?s + 0, 58], elems = one_hot_rows self ?s @ replicate (0 * 58) 0\<rparr>"
    using len by (simp add: narrow_def bi min_def)
  have n2: "narrow \<lparr>shape = [l, 58], elems = blocks ! i\<rparr> l =
            Inr \<lparr>shape = [length ?s + (l - length ?s), 58],
                 elems = one_hot_rows self ?s @ replicate ((l - length ?s) * 58) 0\<rparr>"
    using len by (simp add: narrow_def bi add_mult_distrib [symmetric])
  show "decode_item self \<lparr>shape = [length texts, l, 58], elems = concat blocks\<rparr> i
           (length ?s) = Inr (map (\<lambda>c. ALL_LETTERS ! letter_get self c) ?s)"
    using decode_padded [OF init, of ?s 0] by (simp add: decode_item_def sel n1)
  show "decode_item self \<lparr>shape = [length texts, l, 58], elems = concat blocks\<rparr> i l =
         Inr (map (\<lambda>c. ALL_LETTERS ! letter_get self c) ?s @
              replicate (l - length ?s) (ALL_LETTERS ! 0))"
    using decode_padded [OF init, of ?s "l - length ?s"] len
    by (simp add: decode_item_def sel n2)
qed

lemma iter_tensor_singletons:
  assumes "shape idx = L # sh" and "prod_list sh = 1" and "length (elems idx) = L"
  shows "iter_tensor idx = Inr (map (\<lambda>v. \<lparr>shape = sh, elems = [v]\<rparr>) (elems idx))"
proof -
  have "map (\<lambda>j. \<lparr>shape = sh, elems = take (Suc 0) (drop j (elems idx))\<rparr>) [0 ..< length (elems idx)] =
        map (\<lambda>j. \<lparr>shape = sh, elems = [elems idx ! j]\<rparr>) [0 ..< length (elems idx)]"
    by (intro map_cong refl) (simp add: take1_drop)
  also have "\<dots> = map (\<lambda>v. \<lparr>shape = sh, elems = [v]\<rparr>) (elems idx)"
    by (rule map_upt_nth)
  finally show ?thesis using assms by (simp add: iter_tensor_def)
qed

lemma argmax_last_nonneg:
  assumes "argmax_last t = Inr idx"
  shows "\<exists>ks. elems idx = map int ks"
proof (cases "shape t = []")
  case True
  with assms have "elems idx = map int [0]" by (auto simp: argmax_last_def)
  then show ?thesis by blast
next
  case False
  with assms have "elems idx = map int (map argmax_list (rows_of (last (shape t)) (elems t)))"
    by (auto simp: argmax_last_def Let_def split: if_splits)
  then show ?thesis by blast
qed

section \<open>The claims about the alphabet\<close>

text \<open>
  C7, alphabet coverage: for a constructed dataset and every character \<open>c\<close> of its
  alphabet, \<open>name_to_tensor\<close> of the one-character text \<open>c\<close> succeeds and
  \<open>tensor_to_name\<close> of the result is that same one-character text.
\<close>

theorem alphabet_round_trip:
  assumes "NameDataset_init ext path = Inr self" and "c \<in> set (all_letters self)"
  shows "\<exists>t. name_to_tensor self [c] = Inr t \<and> tensor_to_name self t = Inr [c]"
proof -
  from assms have "c \<in> set ALL_LETTERS" by (simp add: init_fields)
  with letter_get_cases [OF assms(1), of c]
  have "ALL_LETTERS ! letter_get self c = c" by auto
  with decode_encode [OF assms(1), of "[c]"] name_to_tensor_rows [OF assms(1), of "[c]"]
  show ?thesis by simp
qed

theorem alphabet_round_trip_witness:
  "NameDataset_init (sample_extern []) PATTERN = Inr ds_none \<and>
   of_char CHR ''Z'' \<in> set (all_letters ds_none) \<and>
   (\<exists>t. name_to_tensor ds_none [of_char CHR ''Z''] = Inr t \<and>
        tensor_to_name ds_none t = Inr [of_char CHR ''Z''])"
proof -
  have i: "NameDataset_init (sample_extern []) PATTERN = Inr ds_none"
    by (rule init_no_files)
  have m: "of_char CHR ''Z'' \<in> set (all_letters ds_none)"
    by (simp add: dataset_of_def ALL_LETTERS_value)
  from alphabet_round_trip [OF i m] i m show ?thesis by simp
qed

text \<open>
  C8, unknown-character fallback: for a constructed dataset and every character \<open>c\<close>
  outside its alphabet, \<open>letter2idx.get(c, NULL_IDX)\<close> is the sentinel index \<open>0\<close>;
  \<open>name_to_tensor\<close> of the one-character text \<open>c\<close> raises nothing and returns
  exactly the tensor of shape \<open>[1, 1, 58]\<close> whose one row is the one-hot row at index
  \<open>0\<close>; and \<open>tensor_to_name\<close> of that tensor is the one-character text made of the
  alphabet's character at index \<open>0\<close>, the hyphen.
\<close>

theorem unknown_character_fallback:
  assumes "NameDataset_init ext path = Inr self" and "c \<notin> set (all_letters self)"
  shows "letter_get self c = NULL_IDX self \<and> NULL_IDX self = 0 \<and>
         name_to_tensor self [c] = Inr \<lparr>shape = [1, 1, 58], elems = one_hot 58 0\<rparr> \<and>
         tensor_to_name self \<lparr>shape = [1, 1, 58], elems = one_hot 58 0\<rparr> =
           Inr [all_letters self ! NULL_IDX self] \<and>
         all_letters self ! NULL_IDX self = HYPHEN"
proof -
  from assms have "c \<notin> set ALL_LETTERS" by (simp add: init_fields)
  with letter_get_unknown [OF assms(1)] have z: "letter_get self c = 0" by simp
  have enc: "name_to_tensor self [c] = Inr \<lparr>shape = [1, 1, 58], elems = one_hot 58 0\<rparr>"
    using name_to_tensor_rows [OF assms(1), of "[c]"] z by simp
  have dec: "tensor_to_name self \<lparr>shape = [1, 1, 58], elems = one_hot 58 0\<rparr> =
             Inr [ALL_LETTERS ! 0]"
    using decode_encode [OF assms(1) enc] z by simp
  have h: "ALL_LETTERS ! 0 = HYPHEN" by (simp add: ALL_LETTERS_value HYPHEN_def)
  from z enc dec h show ?thesis by (simp add: init_fields [OF assms(1)])
qed

theorem unknown_character_fallback_witness:
  "NameDataset_init (sample_extern []) PATTERN = Inr ds_none \<and>
   of_char CHR ''1'' \<notin> set (all_letters ds_none) \<and>
   letter_get ds_none (of_char CHR ''1'') = 0 \<and>
   name_to_tensor ds_none [of_char CHR ''1''] =
     Inr \<lparr>shape = [1, 1, 58], elems = one_hot 58 0\<rparr> \<and>
   tensor_to_name ds_none \<lparr>shape = [1, 1, 58], elems = one_hot 58 0\<rparr> = Inr [HYPHEN]"
proof -
  have i: "NameDataset_init (sample_extern []) PATTERN = Inr ds_none"
    by (rule init_no_files)
  have m: "of_char CHR ''1'' \<notin> set (all_letters ds_none)"
    by (simp add: dataset_of_def ALL_LETTERS_value)
  have n: "NULL_IDX ds_none = 0"
    by (simp add: dataset_of_def)
  from unknown_character_fallback [OF i m] i m show ?thesis
    unfolding n by simp
qed

text \<open>
  C4 as the code has it: index \<open>0\<close> is the position of the hyphen, which is a member
  of the alphabet. For a constructed dataset, a character is encoded with the index
  \<open>0\<close> exactly when it is the hyphen or lies outside the alphabet; every other
  character of the alphabet gets a nonzero index. The encoding of a one-character text
  is the one-hot row at that index.
\<close>

theorem sentinel_index_shared:
  assumes "NameDataset_init ext path = Inr self"
  shows "(letter_get self c = NULL_IDX self \<longleftrightarrow> c = HYPHEN \<or> c \<notin> set (all_letters self)) \<and>
         HYPHEN \<in> set (all_letters self) \<and>
         all_letters self ! NULL_IDX self = HYPHEN \<and>
         name_to_tensor self [c] =
           Inr \<lparr>shape = [1, 1, 58], elems = one_hot 58 (letter_get self c)\<rparr>"
proof -
  have h0: "ALL_LETTERS ! 0 = HYPHEN" by (simp add: ALL_LETTERS_value HYPHEN_def)
  have hm: "HYPHEN \<in> set ALL_LETTERS" by (simp add: ALL_LETTERS_value HYPHEN_def)
  have hg: "letter_get self HYPHEN = 0"
    using letter_get_member [OF assms, of 0] h0 by simp
  have "letter_get self c = 0 \<longleftrightarrow> c = HYPHEN \<or> c \<notin> set ALL_LETTERS"
    using letter_get_cases [OF assms, of c] h0 hg by auto
  with h0 hm name_to_tensor_rows [OF assms, of "[c]"] show ?thesis
    by (simp add: init_fields [OF assms])
qed

theorem sentinel_index_shared_witness:
  "NameDataset_init (sample_extern dir_hyphen) PATTERN = Inr ds_hyphen \<and>
   letter_get ds_hyphen (of_char CHR ''B'') \<noteq> 0 \<and>
   name_to_tensor ds_hyphen [of_char CHR ''B''] =
     Inr \<lparr>shape = [1, 1, 58], elems = one_hot 58 28\<rparr>"
proof -
  let ?D = "ds_hyphen"
  have i: "NameDataset_init (sample_extern dir_hyphen) PATTERN = Inr ?D"
    by (rule init_sample [OF load_hyphen])
  have b: "letter_get ?D (of_char CHR ''B'') = 28"
    using letter_get_member [OF i, of 28] by (simp add: ALL_LETTERS_value)
  from sentinel_index_shared [OF i, of "of_char CHR ''B''"] i b show ?thesis by simp
qed

text \<open>
  C4 as stated fails: the hyphen occurs in the loaded text \<open>A-B\<close>, is a member of the
  alphabet, and is encoded with the index \<open>0\<close>; the second row of the encoded text is
  the one-hot row at \<open>0\<close>.
\<close>

theorem hyphen_encodes_to_sentinel:
  "NameDataset_init (sample_extern dir_hyphen) PATTERN = Inr ds_hyphen \<and>
   HYPHEN \<in> set (ustr ''A-B'') \<and>
   HYPHEN \<in> set (all_letters ds_hyphen) \<and>
   letter_get ds_hyphen HYPHEN = 0 \<and>
   name_to_tensor ds_hyphen (ustr ''A-B'') =
     Inr \<lparr>shape = [3, 1, 58], elems = one_hot 58 27 @ one_hot 58 0 @ one_hot 58 28\<rparr>"
proof -
  let ?D = "ds_hyphen"
  have i: "NameDataset_init (sample_extern dir_hyphen) PATTERN = Inr ?D"
    by (rule init_sample [OF load_hyphen])
  have a: "letter_get ?D 65 = 27"
    using letter_get_member [OF i, of 27] by (simp add: ALL_LETTERS_value)
  have b: "letter_get ?D 66 = 28"
    using letter_get_member [OF i, of 28] by (simp add: ALL_LETTERS_value)
  have h: "letter_get ?D 45 = 0"
    using letter_get_member [OF i, of 0] by (simp add: ALL_LETTERS_value)
  have "name_to_tensor ?D (ustr ''A-B'') =
     Inr \<lparr>shape = [3, 1, 58], elems = one_hot 58 27 @ one_hot 58 0 @ one_hot 58 28\<rparr>"
    using a b h name_to_tensor_rows [OF i, of "ustr ''A-B''"] by (simp add: ustr_def)
  with i h show ?thesis
    by (simp add: HYPHEN_def ustr_def dataset_of_def ALL_LETTERS_value)
qed

text \<open>
  C9, index out of range: let \<open>idx\<close> be the index sequence that \<open>tensor_to_name\<close>
  computes from its argument (\<open>torch.argmax(tensor, dim=-1)\<close>), holding one index per
  position. If some index of \<open>idx\<close> lies outside \<open>[0, n_letters)\<close>, the call fails
  with \<open>IndexError\<close>; no text is returned.
\<close>

theorem tensor_to_name_index_out_of_range:
  assumes "NameDataset_init ext path = Inr self"
    and "argmax_last t = Inr idx"
    and "shape idx = L # sh" and "prod_list sh = 1" and "length (elems idx) = L"
    and "\<exists>i\<in>set (elems idx). i < 0 \<or> int (n_letters self) \<le> i"
  shows "tensor_to_name self t = Inl IndexError"
proof -
  from argmax_last_nonneg [OF assms(2)] obtain ks where ks: "elems idx = map int ks" by blast
  with assms(6) have "\<exists>k\<in>set ks. length (all_letters self) \<le> k"
    by (auto simp: init_fields [OF assms(1)] length_ALL_LETTERS)
  then have "join_letters (all_letters self) (map (\<lambda>k. \<lparr>shape = sh, elems = [int k]\<rparr>) ks) =
             Inl IndexError"
    by (rule join_letters_out_of_range)
  moreover have "iter_tensor idx = Inr (map (\<lambda>k. \<lparr>shape = sh, elems = [int k]\<rparr>) ks)"
    using iter_tensor_singletons [OF assms(3,4,5)] ks by (simp add: comp_def)
  ultimately show ?thesis using assms(2) by (simp add: tensor_to_name_def)
qed

theorem tensor_to_name_index_out_of_range_witness:
  "NameDataset_init (sample_extern []) PATTERN = Inr ds_none \<and>
   argmax_last \<lparr>shape = [2, 60], elems = one_hot 60 1 @ one_hot 60 59\<rparr> =
     Inr \<lparr>shape = [2], elems = [1, 59]\<rparr> \<and>
   int (n_letters ds_none) \<le> 59 \<and>
   tensor_to_name ds_none
     \<lparr>shape = [2, 60], elems = one_hot 60 1 @ one_hot 60 59\<rparr> = Inl IndexError"
proof -
  have i: "NameDataset_init (sample_extern []) PATTERN = Inr ds_none"
    by (rule init_no_files)
  have "rows_of 60 (concat [one_hot 60 1, one_hot 60 59]) = [one_hot 60 1, one_hot 60 59]"
    by (rule rows_of_concat) simp_all
  then have a: "argmax_last \<lparr>shape = [2, 60], elems = one_hot 60 1 @ one_hot 60 59\<rparr> =
     Inr \<lparr>shape = [2], elems = [1, 59]\<rparr>"
    by (simp add: argmax_last_def argmax_one_hot)
  have n: "int (n_letters ds_none) \<le> 59"
    by (simp add: dataset_of_def length_ALL_LETTERS)
  have "tensor_to_name ds_none
     \<lparr>shape = [2, 60], elems = one_hot 60 1 @ one_hot 60 59\<rparr> = Inl IndexError"
    using n by (intro tensor_to_name_index_out_of_range [OF i a, of 2 "[]"]) simp_all
  with i a n show ?thesis by simp
qed

section \<open>The claims about the corpus loader\<close>

text \<open>
  C2 as the code has it: for every pattern that matches no file, \<open>load_data\<close> raises
  nothing and returns the empty corpus (both mappings empty, no items), and the
  constructor builds a dataset of length \<open>0\<close>.
\<close>

theorem load_data_no_match_returns_empty:
  "glob_glob ext path = [] \<Longrightarrow>
   load_data ext path = Inr (Map.empty, Map.empty, []) \<and>
   NameDataset_init ext path = Inr ds_none \<and>
   len ds_none = 0"
  by (simp add: load_data_def NameDataset_init_def len_def dataset_of_def)

theorem load_data_no_match_returns_empty_witness:
  "glob_glob (sample_extern []) PATTERN = [] \<and>
   load_data (sample_extern []) PATTERN = Inr (Map.empty, Map.empty, []) \<and>
   NameDataset_init (sample_extern []) PATTERN = Inr ds_none \<and>
   len ds_none = 0"
  using load_data_no_match_returns_empty [of "sample_extern []" PATTERN]
  by (simp add: sample_glob)

text \<open>
  C2 as stated fails: over an empty directory the pattern matches nothing, and
  \<open>load_data\<close> returns the empty corpus where the claim has it raise \<open>IOError\<close>
  (which is \<open>OSError\<close>).
\<close>

theorem load_data_no_match_no_error:
  "glob_glob (sample_extern []) PATTERN = [] \<and>
   load_data (sample_extern []) PATTERN = Inr (Map.empty, Map.empty, []) \<and>
   load_data (sample_extern []) PATTERN \<noteq> Inl OSError"
  by (simp add: load_data_def sample_glob)

text \<open>
  C3 as the code has it: when \<open>load_data\<close> returns, every matched file was read, and
  the items are, file after file, one item for every line of the file's stripped
  content, none left out: the text of the item is \<open>unicode_to_ascii\<close> of the line and
  its category that of the file. The content is stripped as a whole, that is, it is
  the stripped content between two runs of whitespace; the lines joined by newlines
  give the stripped content back, and they are one more than its newlines.
\<close>

theorem load_data_lines:
  assumes "load_data ext path = Inr (c2i, i2c, d)"
  shows "\<exists>contents.
           map (open_read ext) (glob_glob ext path) = map Inr contents \<and>
           d = concat (map2 (\<lambda>f content.
                               map (\<lambda>line. (unicode_to_ascii ext line, category_of f))
                                 (split NEWLINE (strip content)))
                        (glob_glob ext path) contents) \<and>
           (\<forall>content\<in>set contents.
              join NEWLINE (split NEWLINE (strip content)) = strip content \<and>
              length (split NEWLINE (strip content)) = Suc (count_list (strip content) NEWLINE) \<and>
              (\<exists>pre post. content = pre @ strip content @ post \<and>
                 list_all isspace pre \<and> list_all isspace post))"
  using load_data_result(3) [OF assms]
  by (auto simp: file_items_def join_split length_split strip_decompose)

theorem load_data_lines_witness:
  "load_data (sample_extern dir_blank_line) PATTERN =
     Inr ([ustr ''English'' \<mapsto> 0], [0 \<mapsto> ustr ''English''],
          [(ustr ''Smith '', ustr ''English''), ([], ustr ''English''),
           (ustr ''Jones'', ustr ''English'')]) \<and>
   (\<exists>contents.
     map (open_read (sample_extern dir_blank_line))
       (glob_glob (sample_extern dir_blank_line) PATTERN) = map Inr contents \<and>
     [(ustr ''Smith '', ustr ''English''), ([], ustr ''English''),
      (ustr ''Jones'', ustr ''English'')] =
     concat (map2 (\<lambda>f content.
               map (\<lambda>line. (unicode_to_ascii (sample_extern dir_blank_line) line, category_of f))
                 (split NEWLINE (strip content)))
            (glob_glob (sample_extern dir_blank_line) PATTERN) contents) \<and>
     (\<forall>content\<in>set contents.
        join NEWLINE (split NEWLINE (strip content)) = strip content \<and>
        length (split NEWLINE (strip content)) = Suc (count_list (strip content) NEWLINE) \<and>
        (\<exists>pre post. content = pre @ strip content @ post \<and>
           list_all isspace pre \<and> list_all isspace post)))"
  using load_data_lines [OF load_blank_line] load_blank_line by blast

text \<open>
  C3 as stated fails: the file \<open>Smith \<close>, blank line, \<open>Jones\<close> gives three items; the
  first keeps the space at its end and the second has the empty text.
\<close>

theorem load_data_keeps_blank_line:
  "load_data (sample_extern dir_blank_line) PATTERN =
   Inr ([ustr ''English'' \<mapsto> 0], [0 \<mapsto> ustr ''English''],
        [(ustr ''Smith '', ustr ''English''), ([], ustr ''English''),
         (ustr ''Jones'', ustr ''English'')])"
  by (rule load_blank_line)

text \<open>
  C6 as the code has it. First part: when \<open>load_data\<close> returns and the matched files
  have pairwise different categories, \<open>cat2idx\<close> and \<open>idx2cat\<close> are inverse to each
  other, and \<open>idx2cat\<close> maps \<open>i\<close> to the category of the \<open>i\<close>-th matched file, counted
  from \<open>0\<close>, and nothing else. Second part, the scenario: if the pattern matches
  \<open>English.txt\<close> with the lines Smith and Jones and then \<open>Italian.txt\<close> with the line
  Rossi, the constructor succeeds with \<open>cat2idx = {English: 0, Italian: 1}\<close>, three
  items, and \<open>tensor_to_name(name_to_tensor("Rossi"))\<close> is \<open>Rossi\<close>.
\<close>

theorem category_mappings_inverse:
  "(load_data ext path = Inr (c2i, i2c, d) \<and>
    distinct (map category_of (glob_glob ext path)) \<longrightarrow>
      (\<forall>c i. c2i c = Some i \<longleftrightarrow> i2c i = Some c) \<and>
      (\<forall>i. i2c i = (if i < length (glob_glob ext path)
                     then Some (category_of (glob_glob ext path ! i)) else None))) \<and>
   (glob_glob ext path = [ustr ''data/names/English.txt'', ustr ''data/names/Italian.txt''] \<and>
    open_read ext (ustr ''data/names/English.txt'') = Inr (ustr ''Smith\<newline>Jones\<newline>'') \<and>
    open_read ext (ustr ''data/names/Italian.txt'') = Inr (ustr ''Rossi\<newline>'') \<longrightarrow>
      (\<exists>self. NameDataset_init ext path = Inr self \<and>
         cat2idx self = [ustr ''English'' \<mapsto> 0, ustr ''Italian'' \<mapsto> 1] \<and>
         idx2cat self = [0 \<mapsto> ustr ''English'', 1 \<mapsto> ustr ''Italian''] \<and>
         len self = 3 \<and>
         (\<exists>t. name_to_tensor self (ustr ''Rossi'') = Inr t \<and>
              tensor_to_name self t = Inr (ustr ''Rossi''))))"
proof (intro conjI impI)
  assume a: "load_data ext path = Inr (c2i, i2c, d) \<and>
    distinct (map category_of (glob_glob ext path))"
  let ?cs = "map category_of (glob_glob ext path)"
  have c: "\<And>c i. c2i c = Some i \<longleftrightarrow> i < length ?cs \<and> ?cs ! i = c"
    using a load_data_result(1) [of ext path c2i i2c d] foldl_enum_Some [of ?cs] by simp
  have i: "\<And>i. i2c i = (if i < length ?cs then Some (?cs ! i) else None)"
    using a load_data_result(2) [of ext path c2i i2c d] foldl_idx_lookup [of Map.empty 0 ?cs]
    by simp
  show "\<forall>c i. c2i c = Some i \<longleftrightarrow> i2c i = Some c"
    using c i by auto
  show "\<forall>i. i2c i = (if i < length (glob_glob ext path)
                     then Some (category_of (glob_glob ext path ! i)) else None)"
    using i by simp
next
  assume s: "glob_glob ext path = [ustr ''data/names/English.txt'', ustr ''data/names/Italian.txt''] \<and>
    open_read ext (ustr ''data/names/English.txt'') = Inr (ustr ''Smith\<newline>Jones\<newline>'') \<and>
    open_read ext (ustr ''data/names/Italian.txt'') = Inr (ustr ''Rossi\<newline>'')"
  have l1: "length (file_items ext (ustr ''English'') (ustr ''Smith\<newline>Jones\<newline>'')) = 2"
    by (simp add: file_items_def strip_def NEWLINE_def ustr_def isspace_def)
  have l2: "length (file_items ext (ustr ''Italian'') (ustr ''Rossi\<newline>'')) = 1"
    by (simp add: file_items_def strip_def NEWLINE_def ustr_def isspace_def)
  obtain self where self: "self = dataset_of
       ([ustr ''English'' \<mapsto> 0, ustr ''Italian'' \<mapsto> 1],
        [0 \<mapsto> ustr ''English'', 1 \<mapsto> ustr ''Italian''],
        file_items ext (ustr ''English'') (ustr ''Smith\<newline>Jones\<newline>'') @
        file_items ext (ustr ''Italian'') (ustr ''Rossi\<newline>''))"
    by simp
  have "load_data ext path = Inr
       ([ustr ''English'' \<mapsto> 0, ustr ''Italian'' \<mapsto> 1],
        [0 \<mapsto> ustr ''English'', 1 \<mapsto> ustr ''Italian''],
        file_items ext (ustr ''English'') (ustr ''Smith\<newline>Jones\<newline>'') @
        file_items ext (ustr ''Italian'') (ustr ''Rossi\<newline>''))"
    using s by (simp add: load_data_def category_English category_Italian Let_def)
  then have init: "NameDataset_init ext path = Inr self"
    unfolding self by (rule init_sample)
  have letters: "map (\<lambda>c. ALL_LETTERS ! letter_get self c) (ustr ''Rossi'') = ustr ''Rossi''"
  proof -
    have "\<forall>c\<in>set (ustr ''Rossi''). c \<in> set ALL_LETTERS"
      by (simp add: ustr_def ALL_LETTERS_value)
    then have "\<forall>c\<in>set (ustr ''Rossi''). ALL_LETTERS ! letter_get self c = c"
      using letter_get_cases [OF init] by blast
    then show ?thesis by (simp add: map_idI)
  qed
  have "\<exists>t. name_to_tensor self (ustr ''Rossi'') = Inr t \<and>
            tensor_to_name self t = Inr (ustr ''Rossi'')"
    using decode_encode [OF init, of "ustr ''Rossi''"] name_to_tensor_rows [OF init, of "ustr ''Rossi''"]
      letters by simp
  moreover have "len self = 3" using l1 l2 by (simp add: self len_def dataset_of_def)
  moreover have "cat2idx self = [ustr ''English'' \<mapsto> 0, ustr ''Italian'' \<mapsto> 1]"
    and "idx2cat self = [0 \<mapsto> ustr ''English'', 1 \<mapsto> ustr ''Italian'']"
    by (simp_all add: self dataset_of_def)
  ultimately show "\<exists>self. NameDataset_init ext path = Inr self \<and>
         cat2idx self = [ustr ''English'' \<mapsto> 0, ustr ''Italian'' \<mapsto> 1] \<and>
         idx2cat self = [0 \<mapsto> ustr ''English'', 1 \<mapsto> ustr ''Italian''] \<and>
         len self = 3 \<and>
         (\<exists>t. name_to_tensor self (ustr ''Rossi'') = Inr t \<and>
              tensor_to_name self t = Inr (ustr ''Rossi''))"
    using init by blast
qed

theorem category_mappings_inverse_witness:
  "load_data (sample_extern dir_two_files) PATTERN =
     Inr ([ustr ''English'' \<mapsto> 0, ustr ''Italian'' \<mapsto> 1],
          [0 \<mapsto> ustr ''English'', 1 \<mapsto> ustr ''Italian''],
          [(ustr ''Smith'', ustr ''English''), (ustr ''Jones'', ustr ''English''),
           (ustr ''Rossi'', ustr ''Italian'')]) \<and>
   distinct (map category_of (glob_glob (sample_extern dir_two_files) PATTERN)) \<and>
   (\<forall>c i. [ustr ''English'' \<mapsto> 0, ustr ''Italian'' \<mapsto> 1] c = Some (i::nat) \<longleftrightarrow>
          [0 \<mapsto> ustr ''English'', 1 \<mapsto> ustr ''Italian''] i = Some c) \<and>
   (\<exists>self. NameDataset_init (sample_extern dir_two_files) PATTERN = Inr self \<and>
      cat2idx self = [ustr ''English'' \<mapsto> 0, ustr ''Italian'' \<mapsto> 1] \<and>
      idx2cat self = [0 \<mapsto> ustr ''English'', 1 \<mapsto> ustr ''Italian''] \<and>
      len self = 3 \<and>
      (\<exists>t. name_to_tensor self (ustr ''Rossi'') = Inr t \<and>
           tensor_to_name self t = Inr (ustr ''Rossi'')))"
proof -
  let ?E = "sample_extern dir_two_files"
  have d: "distinct (map category_of (glob_glob ?E PATTERN))"
    by (simp add: sample_glob dir_two_files_def sample_categories ustr_eq_iff)
  have g: "glob_glob ?E PATTERN =
      [ustr ''data/names/English.txt'', ustr ''data/names/Italian.txt'']"
    by (simp add: sample_glob dir_two_files_def)
  have r1: "open_read ?E (ustr ''data/names/English.txt'') = Inr (ustr ''Smith\<newline>Jones\<newline>'')"
    by (simp add: sample_read dir_two_files_def)
  have r2: "open_read ?E (ustr ''data/names/Italian.txt'') = Inr (ustr ''Rossi\<newline>'')"
    by (simp add: sample_read dir_two_files_def ustr_eq_iff)
  note T = category_mappings_inverse [of ?E PATTERN
      "[ustr ''English'' \<mapsto> 0, ustr ''Italian'' \<mapsto> 1]"
      "[0 \<mapsto> ustr ''English'', 1 \<mapsto> ustr ''Italian'']"
      "[(ustr ''Smith'', ustr ''English''), (ustr ''Jones'', ustr ''English''),
        (ustr ''Rossi'', ustr ''Italian'')]"]
  note A = mp [OF T [THEN conjunct1] conjI [OF load_two_files d]]
  note B = mp [OF T [THEN conjunct2] conjI [OF g conjI [OF r1 r2]]]
  show ?thesis
    by (intro conjI load_two_files d A [THEN conjunct1] B)
qed

text \<open>
  C6 as stated fails: two matched files of the same category leave \<open>idx2cat\<close> with
  \<open>0\<close> and \<open>1\<close> both mapped to English, while \<open>cat2idx\<close> maps English to \<open>1\<close>, the
  index seen last.
\<close>

theorem same_category_two_files:
  "load_data (sample_extern dir_same_name) (ustr ''data/*/*.txt'') =
     Inr ([ustr ''English'' \<mapsto> 1], [0 \<mapsto> ustr ''English'', 1 \<mapsto> ustr ''English''],
          [(ustr ''Smith'', ustr ''English''), (ustr ''Jones'', ustr ''English'')]) \<and>
   [0 \<mapsto> ustr ''English'', 1 \<mapsto> ustr ''English''] (0::nat) = Some (ustr ''English'') \<and>
   [ustr ''English'' \<mapsto> 1] (ustr ''English'') = Some (1::nat) \<and>
   [ustr ''English'' \<mapsto> 1] (ustr ''English'') \<noteq> Some (0::nat)"
  using load_same_name2 by simp



section \<open>The claims about batches\<close>

text \<open>
  C5 as the code has it, for the batches whose two outer extents exceed \<open>1\<close>. Let a
  dataset be constructed and let \<open>ks\<close> be at least two valid positions of items whose
  texts consist of characters of the alphabet, the longest text having \<open>l \<ge> 2\<close>
  characters. Then the batch of these items is built without an exception, its
  sequences have the shape \<open>[length ks, l, 58]\<close>, its categories the shape
  \<open>[length ks]\<close>, and for every \<open>i\<close>: reading back the first \<open>n\<close> positions of the
  \<open>i\<close>-th sequence, \<open>n\<close> the length of the \<open>i\<close>-th text, gives that text, and reading
  back the whole sequence gives the text followed by the character at the sentinel
  index once for every padded position.
\<close>

theorem batch_round_trip:
  assumes "NameDataset_init ext path = Inr self"
    and "\<forall>k\<in>set ks. k < len self"
    and "\<forall>k\<in>set ks. set (fst (data self ! k)) \<subseteq> set (all_letters self)"
    and "2 \<le> length ks"
    and "2 \<le> Max (set (map (\<lambda>k. length (fst (data self ! k))) ks))"
    and "i < length ks"
  shows "\<exists>names categories.
           load_batch self (map int ks) = Inr (names, categories) \<and>
           shape names = [length ks, Max (set (map (\<lambda>k. length (fst (data self ! k))) ks)), 58] \<and>
           shape categories = [length ks] \<and>
           decode_item self names i (length (fst (data self ! (ks ! i)))) =
             Inr (fst (data self ! (ks ! i))) \<and>
           decode_item self names i (Max (set (map (\<lambda>k. length (fst (data self ! k))) ks))) =
             Inr (fst (data self ! (ks ! i)) @
                  replicate (Max (set (map (\<lambda>k. length (fst (data self ! k))) ks)) -
                             length (fst (data self ! (ks ! i))))
                    (all_letters self ! NULL_IDX self))"
proof -
  let ?texts = "map (\<lambda>k. fst (data self ! k)) ks"
  let ?l = "Max (set (map (\<lambda>k. length (fst (data self ! k))) ks))"
  let ?blocks = "map (\<lambda>s. one_hot_rows self s @ replicate ((?l - length s) * 58) 0) ?texts"
  let ?names = "\<lparr>shape = [length ?texts, ?l, 58], elems = concat ?blocks\<rparr>"
  let ?cats = "\<lparr>shape = [length ks],
                elems = map (\<lambda>k. int (the (cat2idx self (snd (data self ! k))))) ks\<rparr>"
  note init = assms(1)
  have ne: "ks \<noteq> []" using assms(4) by auto
  have valid: "\<forall>k\<in>set ks. k < length (data self)" using assms(2) by (simp add: len_def)
  have sq: "squeeze \<lparr>shape = [length ks, ?l, 1, 58], elems = concat ?blocks\<rparr> = ?names"
    using assms(4,5) by (simp add: squeeze_def)
  have lb: "load_batch self (map int ks) = Inr (?names, ?cats)"
    using load_batch_encoded [OF init valid ne] sq by simp
  have le: "\<forall>s\<in>set ?texts. length s \<le> ?l" by auto
  have i: "i < length ?texts" using assms(6) by simp
  have ti: "?texts ! i = fst (data self ! (ks ! i))" using assms(6) by simp
  have same: "map (\<lambda>c. ALL_LETTERS ! letter_get self c) (fst (data self ! (ks ! i))) =
              fst (data self ! (ks ! i))"
    using assms(3,6) by (intro decode_alphabet_text [OF init]) simp
  have d1: "decode_item self ?names i (length (fst (data self ! (ks ! i)))) =
            Inr (fst (data self ! (ks ! i)))"
    using decode_item_padded(1) [OF init refl le i] same by (simp only: ti)
  have d2: "decode_item self ?names i ?l =
            Inr (fst (data self ! (ks ! i)) @
                 replicate (?l - length (fst (data self ! (ks ! i))))
                   (all_letters self ! NULL_IDX self))"
    using decode_item_padded(2) [OF init refl le i] same
    by (simp only: ti init_fields(1,3) [OF init])
  from lb d1 d2 show ?thesis by simp
qed

theorem batch_round_trip_witness:
  "NameDataset_init (sample_extern dir_batch) PATTERN = Inr ds_batch \<and>
   map fst (data ds_batch) = [ustr ''Abl'', ustr ''Zz''] \<and>
   (\<exists>names categories.
      load_batch ds_batch [0, 1] = Inr (names, categories) \<and>
      shape names = [2, 3, 58] \<and> shape categories = [2] \<and>
      decode_item ds_batch names 1 2 = Inr (ustr ''Zz'') \<and>
      decode_item ds_batch names 1 3 = Inr (ustr ''Zz'' @ [HYPHEN]))"
proof -
  have i: "NameDataset_init (sample_extern dir_batch) PATTERN = Inr ds_batch"
    by (rule init_sample [OF load_batch_dir])
  have d: "data ds_batch = [(ustr ''Abl'', ustr ''Czech''), (ustr ''Zz'', ustr ''Czech'')]"
    by (simp add: dataset_of_def)
  have v: "\<forall>k\<in>set [0, 1]. k < len ds_batch"
    by (simp add: len_def d)
  have a: "\<forall>k\<in>set [0, 1]. set (fst (data ds_batch ! k)) \<subseteq> set (all_letters ds_batch)"
    by (simp add: d) (simp add: dataset_of_def ustr_def ALL_LETTERS_value)
  have m: "Max (set (map (\<lambda>k. length (fst (data ds_batch ! k))) [0, 1])) = 3"
    by (simp add: d length_ustr)
  have h: "all_letters ds_batch ! NULL_IDX ds_batch = HYPHEN"
    by (simp add: dataset_of_def ALL_LETTERS_value HYPHEN_def)
  have t1: "fst (data ds_batch ! ([0, 1] ! 1)) = ustr ''Zz''"
    by (simp add: d)
  have p4: "2 \<le> length [0::nat, 1]" by simp
  have p5: "2 \<le> Max (set (map (\<lambda>k. length (fst (data ds_batch ! k))) [0, 1]))"
    unfolding m by simp
  have p6: "1 < length [0::nat, 1]" by simp
  have "\<exists>names categories.
      load_batch ds_batch [0, 1] = Inr (names, categories) \<and>
      shape names = [2, 3, 58] \<and> shape categories = [2] \<and>
      decode_item ds_batch names 1 2 = Inr (ustr ''Zz'') \<and>
      decode_item ds_batch names 1 3 = Inr (ustr ''Zz'' @ [HYPHEN])"
    using batch_round_trip [OF i v a p4 p5 p6] unfolding m t1 h
    by (simp add: length_ustr numeral_2_eq_2)
  with i d show ?thesis by simp
qed

text \<open>
  C5 as stated fails: in the batch of the texts \<open>A1\<close> and \<open>Zz\<close>, reading back the first
  two positions of the first sequence gives \<open>A-\<close>, not \<open>A1\<close>.
\<close>

theorem batch_round_trip_loses_digit:
  "NameDataset_init (sample_extern dir_digit) PATTERN = Inr ds_digit \<and>
   map fst (data ds_digit) = [ustr ''A1'', ustr ''Zz''] \<and>
   batch_decode ds_digit [0, 1] 0 2 = Inr (ustr ''A-'') \<and>
   ustr ''A-'' \<noteq> ustr ''A1''"
proof -
  let ?texts = "[ustr ''A1'', ustr ''Zz'']"
  let ?blocks = "map (\<lambda>s. one_hot_rows ds_digit s @ replicate ((2 - length s) * 58) 0) ?texts"
  have i: "NameDataset_init (sample_extern dir_digit) PATTERN = Inr ds_digit"
    by (rule init_sample [OF load_digit])
  have d: "data ds_digit = [(ustr ''A1'', ustr ''Czech''), (ustr ''Zz'', ustr ''Czech'')]"
    by (simp add: dataset_of_def)
  have c: "cat2idx ds_digit (ustr ''Czech'') = Some 0"
    by (simp add: dataset_of_def)
  have v: "\<forall>k\<in>set [0, 1]. k < length (data ds_digit)"
    by (simp add: d)
  have "load_batch ds_digit (map int [0, 1]) =
        Inr (squeeze \<lparr>shape = [2, 2, 1, 58], elems = concat ?blocks\<rparr>,
             \<lparr>shape = [2], elems = [0, 0]\<rparr>)"
    using load_batch_encoded [OF i v] by (simp add: d c length_ustr numeral_2_eq_2)
  then have lb: "load_batch ds_digit [0, 1] =
        Inr (\<lparr>shape = [length ?texts, 2, 58], elems = concat ?blocks\<rparr>,
             \<lparr>shape = [2], elems = [0, 0]\<rparr>)"
    by (simp add: squeeze_def)
  have a: "letter_get ds_digit (of_char CHR ''A'') = 27"
    using letter_get_member [OF i, of 27] by (simp add: ALL_LETTERS_value)
  have u: "letter_get ds_digit (of_char CHR ''1'') = 0"
    by (rule letter_get_unknown [OF i]) (simp add: ALL_LETTERS_value)
  have "decode_item ds_digit \<lparr>shape = [length ?texts, 2, 58], elems = concat ?blocks\<rparr> 0
          (length (?texts ! 0)) =
        Inr (map (\<lambda>c. ALL_LETTERS ! letter_get ds_digit c) (?texts ! 0))"
    by (rule decode_item_padded(1) [OF i refl]) (simp_all add: length_ustr)
  then have "decode_item ds_digit \<lparr>shape = [length ?texts, 2, 58], elems = concat ?blocks\<rparr> 0 2 =
        Inr (ustr ''A-'')"
    using a u by (simp add: length_ustr ustr_Cons ustr_Nil ALL_LETTERS_value numeral_2_eq_2)
  with lb have "batch_decode ds_digit [0, 1] 0 2 = Inr (ustr ''A-'')"
    by (simp add: batch_decode_def)
  with i d show ?thesis by (simp add: ustr_eq_iff)
qed

text \<open>
  C1 on the code: the dataset over one file with the single name \<open>A\<close> has the item of
  shape \<open>[1, 1, 58]\<close> at position \<open>0\<close>, and the batch of that one item has the shape
  \<open>[58]\<close>: the batch extent and the sequence extent are both gone. The batch of the one
  item \<open>Abl\<close> has the shape \<open>[3, 58]\<close>, without its batch extent, and reading its
  first sequence back raises \<open>TypeError\<close>.
\<close>

theorem collate_fn_single_item:
  "NameDataset_init (sample_extern dir_single) PATTERN = Inr ds_single \<and>
   getitem ds_single 0 =
     Inr (\<lparr>shape = [1, 1, 58], elems = one_hot 58 27\<rparr>, \<lparr>shape = [1], elems = [0]\<rparr>) \<and>
   load_batch ds_single [0] =
     Inr (\<lparr>shape = [58], elems = one_hot 58 27\<rparr>, \<lparr>shape = [1], elems = [0]\<rparr>) \<and>
   NameDataset_init (sample_extern dir_batch) PATTERN = Inr ds_batch \<and>
   load_batch ds_batch [0] =
     Inr (\<lparr>shape = [3, 58], elems = one_hot_rows ds_batch (ustr ''Abl'')\<rparr>,
          \<lparr>shape = [1], elems = [0]\<rparr>) \<and>
   batch_decode ds_batch [0] 0 3 = Inl TypeError"
proof -
  have i: "NameDataset_init (sample_extern dir_single) PATTERN = Inr ds_single"
    by (rule init_sample [OF load_single])
  have d: "data ds_single = [(ustr ''A'', ustr ''Czech'')]"
    by (simp add: dataset_of_def)
  have c: "cat2idx ds_single (ustr ''Czech'') = Some 0"
    by (simp add: dataset_of_def)
  have v: "\<forall>k\<in>set [0]. k < length (data ds_single)"
    by (simp add: d)
  have a: "letter_get ds_single (of_char CHR ''A'') = 27"
    using letter_get_member [OF i, of 27] by (simp add: ALL_LETTERS_value)
  then have r: "one_hot_rows ds_single (ustr ''A'') = one_hot 58 27"
    by (simp add: one_hot_rows_def ustr_Cons ustr_Nil)
  have g: "getitem ds_single 0 =
     Inr (\<lparr>shape = [1, 1, 58], elems = one_hot 58 27\<rparr>, \<lparr>shape = [1], elems = [0]\<rparr>)"
    using getitem_encoded [OF i, of 0]
    by (simp add: d c r encoded_def length_ustr torch_tensor1_def)
  have l: "load_batch ds_single [0] =
     Inr (\<lparr>shape = [58], elems = one_hot 58 27\<rparr>, \<lparr>shape = [1], elems = [0]\<rparr>)"
    using load_batch_encoded [OF i v]
    by (simp add: d c r length_ustr squeeze_def)
  have i': "NameDataset_init (sample_extern dir_batch) PATTERN = Inr ds_batch"
    by (rule init_sample [OF load_batch_dir])
  have d': "data ds_batch = [(ustr ''Abl'', ustr ''Czech''), (ustr ''Zz'', ustr ''Czech'')]"
    by (simp add: dataset_of_def)
  have c': "cat2idx ds_batch (ustr ''Czech'') = Some 0"
    by (simp add: dataset_of_def)
  have v': "\<forall>k\<in>set [0]. k < length (data ds_batch)"
    by (simp add: d')
  have l': "load_batch ds_batch [0] =
     Inr (\<lparr>shape = [3, 58], elems = one_hot_rows ds_batch (ustr ''Abl'')\<rparr>,
          \<lparr>shape = [1], elems = [0]\<rparr>)"
    using load_batch_encoded [OF i' v']
    by (simp add: d' c' length_ustr squeeze_def)
  have "decode_item ds_batch \<lparr>shape = [3, 58], elems = one_hot_rows ds_batch (ustr ''Abl'')\<rparr> 0 3 =
        Inl TypeError"
    by (simp add: decode_item_def select_def narrow_def tensor_to_name_def argmax_last_def
        iter_tensor_def)
  with l' have b: "batch_decode ds_batch [0] 0 3 = Inl TypeError"
    by (simp add: batch_decode_def)
  from i g l i' l' b show ?thesis by simp
qed

end
